theory Spec2Isabelle
  imports Main
begin

section \<open>The dummy data generator: data model\<close>

text \<open>
  The management command of \<^verbatim>\<open>common/management/commands/generate_all_dummy_data.py\<close>
  is embedded function by function. Exceptions are values of type \<open>error\<close>; a call that can
  raise returns \<open>error + 'a\<close>. The object state of the command (\<^verbatim>\<open>self\<close>), the database, the
  logger and the terminal are the fields of one record that every method takes and returns.
\<close>

subsection \<open>Exceptions\<close>

datatype error =
    TypeError
  | AttributeError
  | ValueError
  | IntegrityError
  | DatabaseError
  | OtherError string

subsection \<open>Field classes and \<^verbatim>\<open>isinstance\<close>\<close>

text \<open>
  The classes of \<^verbatim>\<open>django.db.models\<close> that a model field can be an instance of. The
  command tests them with \<^verbatim>\<open>isinstance\<close>, which follows the class hierarchy: \<open>mro c\<close> lists
  \<open>c\<close> and the field classes it inherits from, as the library declares them
  (\<^verbatim>\<open>class EmailField(CharField)\<close>, \<^verbatim>\<open>class URLField(CharField)\<close>,
  \<^verbatim>\<open>class DateTimeField(DateField)\<close>, \<^verbatim>\<open>class SmallIntegerField(IntegerField)\<close>,
  \<^verbatim>\<open>class OneToOneField(ForeignKey)\<close>, ...).
\<close>

datatype field_class =
    AutoField | BigAutoField | BigIntegerField | BinaryField | BooleanField
  | CharField | DateField | DateTimeField | DecimalField | DurationField
  | EmailField | FileField | FloatField | GenericIPAddressField | ImageField
  | IntegerField | JSONField | PositiveIntegerField | PositiveSmallIntegerField
  | SlugField | SmallIntegerField | TextField | TimeField | URLField | UUIDField
  | ForeignKey | OneToOneField | ManyToManyField

fun mro :: "field_class \<Rightarrow> field_class list" where
  "mro EmailField = [EmailField, CharField]"
| "mro URLField = [URLField, CharField]"
| "mro SlugField = [SlugField, CharField]"
| "mro DateTimeField = [DateTimeField, DateField]"
| "mro SmallIntegerField = [SmallIntegerField, IntegerField]"
| "mro BigIntegerField = [BigIntegerField, IntegerField]"
| "mro PositiveIntegerField = [PositiveIntegerField, IntegerField]"
| "mro PositiveSmallIntegerField = [PositiveSmallIntegerField, SmallIntegerField, IntegerField]"
| "mro AutoField = [AutoField, IntegerField]"
| "mro BigAutoField = [BigAutoField, BigIntegerField, IntegerField]"
| "mro ImageField = [ImageField, FileField]"
| "mro OneToOneField = [OneToOneField, ForeignKey]"
| "mro c = [c]"

subsection \<open>Values, instances and model descriptors\<close>

text \<open>
  A decimal is sign, coefficient and number of fractional digits: \<open>Decimal False 1250 2\<close>
  is \<^verbatim>\<open>Decimal('12.50')\<close>.
\<close>

datatype decimal = Decimal (negative: bool) (coefficient: nat) (places: nat)

text \<open>
  Python values a field can hold. A timestamp is a number of seconds, a date a number of
  days. An instance carries the name of its model (\<^verbatim>\<open>app_label.model_name\<close>), its primary
  key (\<open>None\<close> until it is saved) and its attributes in the order of the model's fields.
\<close>

datatype pyval =
    VNone
  | VStr string
  | VInt int
  | VBool bool
  | VDecimal decimal
  | VDateTime nat
  | VDate nat
  | VObj inst
and inst =
    Instance (model_of: string) (pk: "nat option") (attrs: "(string \<times> pyval) list")

record field =
  fclass :: field_class
  name :: string
  max_length :: "nat option"
  max_digits :: "int option"
  decimal_places :: "int option"
  remote_field :: "(string \<times> string) option"
  default_value :: pyval

text \<open>
  \<open>remote_field\<close> is \<^verbatim>\<open>field.remote_field\<close>: \<open>None\<close> for a field that is no relation,
  otherwise the \<^verbatim>\<open>app_label\<close> and \<^verbatim>\<open>model_name\<close> of \<^verbatim>\<open>field.remote_field.model\<close>.
  \<open>default_value\<close> is what the model's constructor puts into the attribute.
\<close>

record model =
  app_label :: string
  model_name :: string
  label :: string
  abstract :: bool
  meta_fields :: "field list"
  many_to_many :: "field list"

definition isinstance :: "field \<Rightarrow> field_class \<Rightarrow> bool" where
  "isinstance f c = (c \<in> set (mro (fclass f)))"

text \<open>The key of the creation ledger: \<^verbatim>\<open>f"{app_label}.{model_name}"\<close>.\<close>

definition dotted :: "string \<Rightarrow> string \<Rightarrow> string" where
  "dotted a m = a @ ''.'' @ m"

definition model_key :: "model \<Rightarrow> string" where
  "model_key m = dotted (app_label m) (model_name m)"

subsection \<open>Strings\<close>

text \<open>\<^verbatim>\<open>str.lower\<close> on the ASCII letters, \<^verbatim>\<open>str.endswith\<close> and the slice \<^verbatim>\<open>s[:n]\<close>.\<close>

definition lower_char :: "char \<Rightarrow> char" where
  "lower_char c =
     (let n = (of_char c :: nat) in if 65 \<le> n \<and> n \<le> 90 then char_of (n + 32) else c)"

definition lower :: "string \<Rightarrow> string" where
  "lower s = map lower_char s"

definition endswith :: "string \<Rightarrow> string \<Rightarrow> bool" where
  "endswith s t = (length t \<le> length s \<and> drop (length s - length t) s = t)"

definition slice_to :: "nat \<Rightarrow> string \<Rightarrow> string" where
  "slice_to n s = take n s"

subsection \<open>The world outside the command\<close>

text \<open>
  The fake-data library, the \<^verbatim>\<open>random\<close> module, the clock and the database are not part of
  the command. Their answers are taken from an environment: the \<open>n\<close>-th random draw of a run
  is the value of the generator at \<open>n\<close>, and the \<open>n\<close>-th database call raises the exception
  \<open>db_fault e n\<close> if there is one. Any sequence of answers is some environment, so a
  statement for all environments is a statement for all runs. \<open>get_models\<close> is
  \<^verbatim>\<open>apps.get_models()\<close>.
\<close>

record env =
  get_models :: "model list"
  faker_email :: "nat \<Rightarrow> error + string"
  faker_phone_number :: "nat \<Rightarrow> error + string"
  faker_name :: "nat \<Rightarrow> error + string"
  faker_text :: "nat \<Rightarrow> nat \<Rightarrow> error + string"
  faker_date_time_this_decade :: "nat \<Rightarrow> error + nat"
  faker_date_this_decade :: "nat \<Rightarrow> error + nat"
  faker_boolean :: "nat \<Rightarrow> error + bool"
  faker_random_int :: "int \<Rightarrow> int \<Rightarrow> nat \<Rightarrow> error + int"
  faker_pydecimal :: "int \<Rightarrow> int \<Rightarrow> bool \<Rightarrow> nat \<Rightarrow> error + decimal"
  faker_url :: "nat \<Rightarrow> error + string"
  random_bits :: "nat \<Rightarrow> nat"
  timezone_now :: "nat \<Rightarrow> nat"
  db_fault :: "nat \<Rightarrow> error option"

record user =
  username :: string
  email :: string
  password :: string
  is_superuser :: bool

text \<open>What the logger and the terminal receive, one constructor per message of the source.\<close>

datatype log_entry =
    ErrorGenerating error
  | ErrorBaseAuth error
  | ErrorInstance nat string error
  | ErrorModel string error
  | ErrorField string error

datatype out_line =
    Generating string
  | ErrorProcessing string error
  | Successfully nat
  | Skipped "string set"
  | Failed error

text \<open>The calls that reach the database while models are processed, in the order made.\<close>

datatype event =
    SaveOk inst
  | SaveFailed inst error
  | Query string
  | SetRelated inst string "inst list"

record state =
  created_objects :: "string \<rightharpoonup> inst list"
  processed_models :: "string set"
  skipped_models :: "string set"
  db_rows :: "string \<Rightarrow> inst list"
  db_groups :: "string list"
  db_users :: "user list"
  next_pk :: nat
  db_ops :: nat
  rng :: nat
  logged :: "log_entry list"
  stdout :: "out_line list"
  trace :: "event list"

definition tick :: "state \<Rightarrow> state" where
  "tick s = s\<lparr>rng := Suc (rng s)\<rparr>"

definition db_called :: "state \<Rightarrow> state" where
  "db_called s = s\<lparr>db_ops := Suc (db_ops s)\<rparr>"

text \<open>\<^verbatim>\<open>self.created_objects.get(key, [])\<close>.\<close>

definition ledger :: "state \<Rightarrow> string \<Rightarrow> inst list" where
  "ledger s k = (case created_objects s k of None \<Rightarrow> [] | Some xs \<Rightarrow> xs)"

text \<open>\<^verbatim>\<open>random.choice(xs)\<close> on a non-empty list, and \<^verbatim>\<open>random.sample(xs, k)\<close>.\<close>

definition choice :: "env \<Rightarrow> nat \<Rightarrow> 'a list \<Rightarrow> 'a" where
  "choice e n xs = xs ! (random_bits e n mod length xs)"

fun sample :: "env \<Rightarrow> nat \<Rightarrow> 'a list \<Rightarrow> nat \<Rightarrow> 'a list" where
  "sample e n xs 0 = []"
| "sample e n xs (Suc k) =
     (if xs = [] then []
      else (let i = random_bits e n mod length xs
            in xs ! i # sample e (Suc n) (take i xs @ drop (Suc i) xs) k))"

text \<open>
  \<^verbatim>\<open>obj.save()\<close> of a fresh instance: the row is inserted and the instance gets its primary
  key, unless the database raises.
\<close>

definition save :: "env \<Rightarrow> inst \<Rightarrow> state \<Rightarrow> (error + inst) \<times> state" where
  "save e obj s =
     (case db_fault e (db_ops s) of
        Some err \<Rightarrow> (Inl err, (db_called s)\<lparr>trace := trace s @ [SaveFailed obj err]\<rparr>)
      | None \<Rightarrow>
          (let obj' = Instance (model_of obj) (Some (next_pk s)) (attrs obj)
           in (Inr obj',
               (db_called s)\<lparr>db_rows := (db_rows s)(model_of obj := db_rows s (model_of obj) @ [obj']),
                              next_pk := Suc (next_pk s),
                              trace := trace s @ [SaveOk obj']\<rparr>)))"

section \<open>The command\<close>

subsection \<open>\<^verbatim>\<open>generate_field_value\<close>\<close>

text \<open>The \<^verbatim>\<open>except Exception\<close> of \<^verbatim>\<open>generate_field_value\<close>: log, return \<^verbatim>\<open>None\<close>.\<close>

definition caught :: "field \<Rightarrow> state \<Rightarrow> error + pyval \<Rightarrow> pyval \<times> state" where
  "caught f s r =
     (case r of
        Inl err \<Rightarrow> (VNone, s\<lparr>logged := logged s @ [ErrorField (name f) err]\<rparr>)
      | Inr v \<Rightarrow> (v, s))"

definition special_names :: "string list" where
  "special_names = [''created'', ''modified'', ''creation_date'']"

text \<open>The \<^verbatim>\<open>ForeignKey\<close> branch (lines 185 to 197).\<close>

definition related_value :: "env \<Rightarrow> field \<Rightarrow> state \<Rightarrow> pyval \<times> state" where
  "related_value e f s =
     (case remote_field f of
        None \<Rightarrow> caught f s (Inl AttributeError)
      | Some (a, m) \<Rightarrow>
          (let related_objects = ledger s (dotted a m)
           in if related_objects \<noteq> [] then (VObj (choice e (rng s) related_objects), tick s)
              else (let s1 = (db_called s)\<lparr>trace := trace s @ [Query (dotted a m)]\<rparr>
                    in case db_fault e (db_ops s) of
                         Some err \<Rightarrow> (VNone, s1)
                       | None \<Rightarrow>
                           (if db_rows s (dotted a m) = [] then (VNone, s1)
                            else (VObj (choice e (rng s) (db_rows s (dotted a m))), tick s1)))))"

definition generate_field_value :: "env \<Rightarrow> field \<Rightarrow> state \<Rightarrow> pyval \<times> state" where
  "generate_field_value e f s =
     (if isinstance f CharField then
        (let max_len = (case max_length f of None \<Rightarrow> 100 | Some n \<Rightarrow> if n = 0 then 100 else n)
         in if endswith (lower (name f)) ''email'' then
              caught f (tick s) (map_sum id VStr (faker_email e (rng s)))
            else if endswith (lower (name f)) ''phone'' then
              caught f (tick s) (map_sum id (\<lambda>v. VStr (slice_to max_len v)) (faker_phone_number e (rng s)))
            else if endswith (lower (name f)) ''name'' then
              caught f (tick s) (map_sum id (\<lambda>v. VStr (slice_to max_len v)) (faker_name e (rng s)))
            else if lower (name f) = ''language_code'' then (VStr ''en'', s)
            else
              caught f (tick s) (map_sum id (\<lambda>v. VStr (slice_to max_len v)) (faker_text e max_len (rng s))))
      else if isinstance f TextField then
        caught f (tick s) (map_sum id VStr (faker_text e 200 (rng s)))
      else if isinstance f DateTimeField then
        (if name f \<in> set special_names then (VDateTime (timezone_now e (rng s)), tick s)
         else caught f (tick s) (map_sum id VDateTime (faker_date_time_this_decade e (rng s))))
      else if isinstance f DateField then
        (if name f \<in> set special_names then (VDate (timezone_now e (rng s) div 86400), tick s)
         else caught f (tick s) (map_sum id VDate (faker_date_this_decade e (rng s))))
      else if isinstance f BooleanField then
        caught f (tick s) (map_sum id VBool (faker_boolean e (rng s)))
      else if isinstance f IntegerField \<or> isinstance f SmallIntegerField then
        (if name f = ''index_number'' then (VInt (1 + int (random_bits e (rng s) mod 100)), tick s)
         else caught f (tick s) (map_sum id VInt (faker_random_int e 0 1000 (rng s))))
      else if isinstance f DecimalField then
        (case (max_digits f, decimal_places f) of
           (Some md, Some dp) \<Rightarrow>
             caught f (tick s) (map_sum id VDecimal (faker_pydecimal e (md - dp) dp True (rng s)))
         | _ \<Rightarrow> caught f s (Inl TypeError))
      else if isinstance f URLField then
        caught f (tick s) (map_sum id VStr (faker_url e (rng s)))
      else if isinstance f ForeignKey then related_value e f s
      else if isinstance f EmailField then
        caught f (tick s) (map_sum id VStr (faker_email e (rng s)))
      else (VNone, s))"

subsection \<open>\<^verbatim>\<open>create_model_instance\<close>\<close>

text \<open>\<^verbatim>\<open>setattr(instance, name, value)\<close> and \<^verbatim>\<open>getattr(instance, name)\<close>.\<close>

fun assign :: "string \<Rightarrow> pyval \<Rightarrow> (string \<times> pyval) list \<Rightarrow> (string \<times> pyval) list" where
  "assign k v [] = [(k, v)]"
| "assign k v ((k', v') # ps) = (if k' = k then (k, v) # ps else (k', v') # assign k v ps)"

definition setattr :: "inst \<Rightarrow> string \<Rightarrow> pyval \<Rightarrow> inst" where
  "setattr obj k v = Instance (model_of obj) (pk obj) (assign k v (attrs obj))"

definition getattr :: "inst \<Rightarrow> string \<Rightarrow> pyval option" where
  "getattr obj k = map_of (attrs obj) k"

text \<open>\<^verbatim>\<open>model()\<close>: every field holds its default, the primary key is not set.\<close>

definition new_instance :: "model \<Rightarrow> inst" where
  "new_instance m = Instance (model_key m) None (map (\<lambda>f. (name f, default_value f)) (meta_fields m))"

fun set_fields :: "env \<Rightarrow> field list \<Rightarrow> inst \<Rightarrow> state \<Rightarrow> inst \<times> state" where
  "set_fields e [] obj s = (obj, s)"
| "set_fields e (f # fs) obj s =
     (if name f \<in> {''id'', ''pk''} then set_fields e fs obj s
      else (case generate_field_value e f s of
              (v, s1) \<Rightarrow> set_fields e fs (setattr obj (name f) v) s1))"

definition create_model_instance :: "env \<Rightarrow> model \<Rightarrow> state \<Rightarrow> inst \<times> state" where
  "create_model_instance e m s = set_fields e (meta_fields m) (new_instance m) s"

subsection \<open>\<^verbatim>\<open>generate_data_for_model\<close>\<close>

text \<open>
  The loop \<^verbatim>\<open>for i in range(100)\<close> with its \<^verbatim>\<open>try\<close>: the list holds the values of \<open>i\<close>
  still to come, \<open>acc\<close> is the local list \<^verbatim>\<open>created_objects\<close>. A model instance is always
  true in \<^verbatim>\<open>if obj\<close>. Of the calls in the loop body only \<^verbatim>\<open>save\<close> raises here;
  \<^verbatim>\<open>generate_field_value\<close> catches its own exceptions. Outside the loop the method writes to
  the terminal and to its own sets and dictionary, which do not raise, so its outer
  \<^verbatim>\<open>except\<close> (the message \<open>ErrorModel\<close>) has no branch.
\<close>

fun create_objects :: "env \<Rightarrow> model \<Rightarrow> nat list \<Rightarrow> inst list \<Rightarrow> state \<Rightarrow> inst list \<times> state" where
  "create_objects e m [] acc s = (acc, s)"
| "create_objects e m (i # is) acc s =
     (case create_model_instance e m s of
        (obj, s1) \<Rightarrow>
          (case save e obj s1 of
             (Inl err, s2) \<Rightarrow>
               create_objects e m is acc
                 (s2\<lparr>logged := logged s2 @ [ErrorInstance i (model_key m) err]\<rparr>)
           | (Inr obj', s2) \<Rightarrow> create_objects e m is (acc @ [obj']) s2))"

definition generate_data_for_model :: "env \<Rightarrow> model \<Rightarrow> state \<Rightarrow> state" where
  "generate_data_for_model e m s =
     (let s0 = s\<lparr>stdout := stdout s @ [Generating (model_key m)]\<rparr>
      in if abstract m then
           s0\<lparr>skipped_models := insert (model_key m @ '' (abstract)'') (skipped_models s0)\<rparr>
         else (case create_objects e m [0..<100] [] s0 of
                 (created, s1) \<Rightarrow>
                   s1\<lparr>processed_models := insert (model_key m) (processed_models s1),
                      created_objects := (created_objects s1)(model_key m \<mapsto> created)\<rparr>))"

subsection \<open>\<^verbatim>\<open>handle_many_to_many_relations\<close>\<close>

text \<open>
  The method has no \<^verbatim>\<open>try\<close>: an exception leaves it, so it returns the exception, if any,
  beside the state reached. The inner loop runs over the instances of the model in the ledger.
\<close>

fun set_relations :: "env \<Rightarrow> field \<Rightarrow> inst list \<Rightarrow> inst list \<Rightarrow> state \<Rightarrow> error option \<times> state" where
  "set_relations e f related_objects [] s = (None, s)"
| "set_relations e f related_objects (obj # objs) s =
     (let num_relations = 1 + random_bits e (rng s) mod min 5 (length related_objects);
          related = sample e (Suc (rng s)) related_objects num_relations;
          s1 = s\<lparr>rng := Suc (rng s) + num_relations\<rparr>
      in case db_fault e (db_ops s1) of
           Some err \<Rightarrow> (Some err, db_called s1)
         | None \<Rightarrow>
             set_relations e f related_objects objs
               ((db_called s1)\<lparr>trace := trace s1 @ [SetRelated obj (name f) related]\<rparr>))"

fun relate_fields :: "env \<Rightarrow> model \<Rightarrow> field list \<Rightarrow> state \<Rightarrow> error option \<times> state" where
  "relate_fields e m [] s = (None, s)"
| "relate_fields e m (f # fs) s =
     (case remote_field f of
        None \<Rightarrow> (Some AttributeError, s)
      | Some (a, mn) \<Rightarrow>
          (let related_objects = ledger s (dotted a mn)
           in if related_objects = [] then relate_fields e m fs s
              else (case set_relations e f related_objects (ledger s (model_key m)) s of
                      (Some err, s1) \<Rightarrow> (Some err, s1)
                    | (None, s1) \<Rightarrow> relate_fields e m fs s1)))"

definition handle_many_to_many_relations :: "env \<Rightarrow> model \<Rightarrow> state \<Rightarrow> error option \<times> state" where
  "handle_many_to_many_relations e m s = relate_fields e m (many_to_many m) s"

subsection \<open>\<^verbatim>\<open>create_base_auth_models\<close>\<close>

text \<open>
  \<^verbatim>\<open>Group.objects.get_or_create(name=group_name)\<close>: the group table is searched by name and
  a row is added when none has it.
\<close>

definition get_or_create_group :: "env \<Rightarrow> string \<Rightarrow> state \<Rightarrow> error option \<times> state" where
  "get_or_create_group e g s =
     (case db_fault e (db_ops s) of
        Some err \<Rightarrow> (Some err, db_called s)
      | None \<Rightarrow>
          (None, if g \<in> set (db_groups s) then db_called s
                 else (db_called s)\<lparr>db_groups := db_groups s @ [g]\<rparr>))"

fun create_groups :: "env \<Rightarrow> string list \<Rightarrow> state \<Rightarrow> error option \<times> state" where
  "create_groups e [] s = (None, s)"
| "create_groups e (g # gs) s =
     (case get_or_create_group e g s of
        (Some err, s1) \<Rightarrow> (Some err, s1)
      | (None, s1) \<Rightarrow> create_groups e gs s1)"

text \<open>\<^verbatim>\<open>User.objects.filter(is_superuser=True).exists()\<close>.\<close>

definition superuser_exists :: "env \<Rightarrow> state \<Rightarrow> (error + bool) \<times> state" where
  "superuser_exists e s =
     (case db_fault e (db_ops s) of
        Some err \<Rightarrow> (Inl err, db_called s)
      | None \<Rightarrow> (Inr (\<exists>u \<in> set (db_users s). is_superuser u), db_called s))"

text \<open>
  \<^verbatim>\<open>User.objects.create_superuser(username, email, password)\<close>: user names are unique, so a
  taken name is an \<^verbatim>\<open>IntegrityError\<close>.
\<close>

definition create_superuser :: "env \<Rightarrow> string \<Rightarrow> string \<Rightarrow> string \<Rightarrow> state \<Rightarrow> error option \<times> state" where
  "create_superuser e un em pw s =
     (case db_fault e (db_ops s) of
        Some err \<Rightarrow> (Some err, db_called s)
      | None \<Rightarrow>
          (if un \<in> username ` set (db_users s) then (Some IntegrityError, db_called s)
           else (None, (db_called s)\<lparr>db_users := db_users s @
                   [\<lparr>username = un, email = em, password = pw, is_superuser = True\<rparr>]\<rparr>)))"

definition groups :: "string list" where
  "groups = [''managers'', ''operators'', ''superoperators'']"

text \<open>The body of the \<^verbatim>\<open>try\<close>, then the method with its \<^verbatim>\<open>except\<close>.\<close>

definition base_auth_body :: "env \<Rightarrow> state \<Rightarrow> error option \<times> state" where
  "base_auth_body e s =
     (case create_groups e groups s of
        (Some err, s1) \<Rightarrow> (Some err, s1)
      | (None, s1) \<Rightarrow>
          (case superuser_exists e s1 of
             (Inl err, s2) \<Rightarrow> (Some err, s2)
           | (Inr True, s2) \<Rightarrow> (None, s2)
           | (Inr False, s2) \<Rightarrow> create_superuser e ''admin'' ''admin@example.com'' ''admin'' s2))"

definition create_base_auth_models :: "env \<Rightarrow> state \<Rightarrow> state" where
  "create_base_auth_models e s =
     (case base_auth_body e s of
        (Some err, s1) \<Rightarrow> s1\<lparr>logged := logged s1 @ [ErrorBaseAuth err]\<rparr>
      | (None, s1) \<Rightarrow> s1)"

subsection \<open>\<^verbatim>\<open>handle\<close>\<close>

text \<open>
  The options the framework passes to \<^verbatim>\<open>handle\<close>: a dictionary from the argument names to
  the parsed values. \<^verbatim>\<open>add_arguments\<close> declares \<^verbatim>\<open>--exclude\<close> with \<^verbatim>\<open>nargs='+'\<close> and no
  default, so the parser stores the list of names given, and \<^verbatim>\<open>None\<close> under the key
  \<^verbatim>\<open>exclude\<close> when the argument is left out. \<open>parsed_options\<close> takes what followed
  \<^verbatim>\<open>--exclude\<close>, or \<open>None\<close>.
\<close>

type_synonym options = "string \<rightharpoonup> string list option"

definition parsed_options :: "string list option \<Rightarrow> options" where
  "parsed_options exclude_arg = [''exclude'' \<mapsto> exclude_arg]"

text \<open>\<^verbatim>\<open>options.get('exclude', [])\<close>: the default is used only when the key is missing.\<close>

definition get_exclude :: "options \<Rightarrow> string list option" where
  "get_exclude opts = (case opts ''exclude'' of None \<Rightarrow> Some [] | Some v \<Rightarrow> v)"

text \<open>\<^verbatim>\<open>x not in excluded_models\<close>: \<^verbatim>\<open>None\<close> is not a container.\<close>

definition not_in :: "string \<Rightarrow> string list option \<Rightarrow> error + bool" where
  "not_in x excluded = (case excluded of None \<Rightarrow> Inl TypeError | Some xs \<Rightarrow> Inr (x \<notin> set xs))"

text \<open>The comprehension of lines 47 to 51; \<^verbatim>\<open>and\<close> evaluates the membership test first.\<close>

fun models_to_process :: "string list option \<Rightarrow> model list \<Rightarrow> error + model list" where
  "models_to_process excluded [] = Inr []"
| "models_to_process excluded (m # ms) =
     (case not_in (model_key m) excluded of
        Inl err \<Rightarrow> Inl err
      | Inr keep \<Rightarrow>
          (case models_to_process excluded ms of
             Inl err \<Rightarrow> Inl err
           | Inr rest \<Rightarrow> Inr (if keep \<and> app_label m \<noteq> ''auth'' then m # rest else rest)))"

text \<open>The loop of lines 57 to 67.\<close>

fun process_models :: "env \<Rightarrow> model list \<Rightarrow> state \<Rightarrow> state" where
  "process_models e [] s = s"
| "process_models e (m # ms) s =
     (case handle_many_to_many_relations e m (generate_data_for_model e m s) of
        (None, s1) \<Rightarrow> process_models e ms s1
      | (Some err, s1) \<Rightarrow>
          process_models e ms (s1\<lparr>stdout := stdout s1 @ [ErrorProcessing (label m) err]\<rparr>))"

text \<open>The \<^verbatim>\<open>except\<close> of \<^verbatim>\<open>handle\<close>.\<close>

definition failed :: "error \<Rightarrow> state \<Rightarrow> state" where
  "failed err s = s\<lparr>logged := logged s @ [ErrorGenerating err], stdout := stdout s @ [Failed err]\<rparr>"

definition report :: "state \<Rightarrow> state" where
  "report s =
     (let s1 = s\<lparr>stdout := stdout s @ [Successfully (card (processed_models s))]\<rparr>
      in if skipped_models s1 \<noteq> {} then s1\<lparr>stdout := stdout s1 @ [Skipped (skipped_models s1)]\<rparr>
         else s1)"

text \<open>
  \<^verbatim>\<open>self.sort_models_by_dependencies\<close> is looked up on the object at the call. \<open>handle\<close> takes
  what the lookup finds: \<open>None\<close> when the object has no such attribute, which raises
  \<^verbatim>\<open>AttributeError\<close>.
\<close>

type_synonym sorter = "model list \<Rightarrow> error + model list"

definition call_sorter :: "sorter option \<Rightarrow> model list \<Rightarrow> error + model list" where
  "call_sorter sorter_found ms = (case sorter_found of None \<Rightarrow> Inl AttributeError | Some f \<Rightarrow> f ms)"

definition handle :: "sorter option \<Rightarrow> env \<Rightarrow> options \<Rightarrow> state \<Rightarrow> state" where
  "handle sorter_found e opts s =
     (let excluded_models = get_exclude opts;
          s1 = create_base_auth_models e s
      in case models_to_process excluded_models (get_models e) of
           Inl err \<Rightarrow> failed err s1
         | Inr ms \<Rightarrow>
             (case call_sorter sorter_found ms of
                Inl err \<Rightarrow> failed err s1
              | Inr sorted_models \<Rightarrow> report (process_models e sorted_models s1)))"

text \<open>
  The class \<^verbatim>\<open>Command\<close> defines \<^verbatim>\<open>__init__\<close>, \<^verbatim>\<open>add_arguments\<close>, \<^verbatim>\<open>handle\<close>,
  \<^verbatim>\<open>create_base_auth_models\<close>, \<^verbatim>\<open>generate_data_for_model\<close>, \<^verbatim>\<open>generate_field_value\<close>,
  \<^verbatim>\<open>create_model_instance\<close> and \<^verbatim>\<open>handle_many_to_many_relations\<close>, and inherits from the
  framework's \<^verbatim>\<open>BaseCommand\<close>: neither has a \<^verbatim>\<open>sort_models_by_dependencies\<close>.
\<close>

definition Command_sort_models_by_dependencies :: "sorter option" where
  "Command_sort_models_by_dependencies = None"

definition Command_handle :: "env \<Rightarrow> options \<Rightarrow> state \<Rightarrow> state" where
  "Command_handle = handle Command_sort_models_by_dependencies"

text \<open>\<^verbatim>\<open>__init__\<close>, over a database as it is found.\<close>

definition init :: "(string \<Rightarrow> inst list) \<Rightarrow> string list \<Rightarrow> user list \<Rightarrow> nat \<Rightarrow> state" where
  "init rows gs us k =
     \<lparr>created_objects = Map.empty, processed_models = {}, skipped_models = {},
      db_rows = rows, db_groups = gs, db_users = us, next_pk = k, db_ops = 0, rng = 0,
      logged = [], stdout = [], trace = []\<rparr>"

section \<open>Notions the properties are stated with\<close>

subsection \<open>Field values\<close>

text \<open>A field is recognized when one of the \<^verbatim>\<open>isinstance\<close> tests of \<^verbatim>\<open>generate_field_value\<close> holds.\<close>

definition recognized :: "field \<Rightarrow> bool" where
  "recognized f =
     (isinstance f CharField \<or> isinstance f TextField \<or> isinstance f DateTimeField \<or>
      isinstance f DateField \<or> isinstance f BooleanField \<or> isinstance f IntegerField \<or>
      isinstance f SmallIntegerField \<or> isinstance f DecimalField \<or> isinstance f URLField \<or>
      isinstance f ForeignKey \<or> isinstance f EmailField)"

text \<open>The shape of an email address: a non-empty local part, one \<^verbatim>\<open>@\<close>, a domain with a dot.\<close>

definition email_shape :: "string \<Rightarrow> bool" where
  "email_shape s =
     (let l = takeWhile (\<lambda>c. c \<noteq> CHR ''@'') s; d = drop (Suc (length l)) s
      in l \<noteq> [] \<and> length l < length s \<and> CHR ''@'' \<notin> set d \<and> CHR ''.'' \<in> set d)"

text \<open>The number of digits of the integer part of a decimal.\<close>

fun ndigits :: "nat \<Rightarrow> nat" where
  "ndigits n = (if n < 10 then 1 else Suc (ndigits (n div 10)))"

definition integer_digits :: "decimal \<Rightarrow> nat" where
  "integer_digits d = ndigits (coefficient d div 10 ^ places d)"

text \<open>
  What the fake-data library promises for one call
  \<^verbatim>\<open>pydecimal(left_digits=l, right_digits=r, positive=True)\<close>: a decimal that is not negative,
  with \<open>r\<close> fractional digits and an integer part of at most \<open>l\<close> digits. The promise is
  taken for the digit counts of the call only; the library raises for other counts (for
  no digits at all, or negative counts).
\<close>

definition pydecimal_promise :: "env \<Rightarrow> int \<Rightarrow> int \<Rightarrow> bool" where
  "pydecimal_promise e l r =
     (\<forall>n. \<exists>d. faker_pydecimal e l r True n = Inr d \<and> \<not> negative d \<and> places d = nat r \<and>
             coefficient d div 10 ^ nat r < 10 ^ nat l)"

subsection \<open>Events of a run\<close>

text \<open>The instances whose \<^verbatim>\<open>save\<close> returned, in the order of the events.\<close>

fun saved_of :: "event list \<Rightarrow> inst list" where
  "saved_of [] = []"
| "saved_of (SaveOk obj # es) = obj # saved_of es"
| "saved_of (ev # es) = saved_of es"

text \<open>
  The events of the instance generation of the model with key \<open>k\<close> (saves of its instances,
  and the store queries of the relationship resolver), and the attachments for its instances.
\<close>

fun generation_of :: "string \<Rightarrow> event \<Rightarrow> bool" where
  "generation_of k (SaveOk obj) = (model_of obj = k)"
| "generation_of k (SaveFailed obj err) = (model_of obj = k)"
| "generation_of k (Query q) = True"
| "generation_of k (SetRelated obj f rel) = False"

fun wiring_of :: "string \<Rightarrow> event \<Rightarrow> bool" where
  "wiring_of k (SetRelated obj f rel) = (model_of obj = k)"
| "wiring_of k ev = False"

text \<open>
  The events of a run over the models with keys \<open>ks\<close>: for each model in turn, events of
  its generation, then attachments for its instances.
\<close>

inductive run_shape :: "string list \<Rightarrow> event list \<Rightarrow> bool" where
  nil: "run_shape [] []"
| step: "\<lbrakk>\<forall>ev \<in> set g. generation_of k ev; \<forall>ev \<in> set w. wiring_of k ev; run_shape ks es\<rbrakk>
          \<Longrightarrow> run_shape (k # ks) (g @ w @ es)"

text \<open>
  The claim that wiring waits for all generation, as a test on the trace: after an
  attachment for an instance of one model, no instance of another model is saved.
\<close>

fun saves_other :: "string \<Rightarrow> event list \<Rightarrow> bool" where
  "saves_other k [] = False"
| "saves_other k (SaveOk obj # es) = (model_of obj \<noteq> k \<or> saves_other k es)"
| "saves_other k (SaveFailed obj err # es) = (model_of obj \<noteq> k \<or> saves_other k es)"
| "saves_other k (ev # es) = saves_other k es"

fun wiring_after_all_generation :: "event list \<Rightarrow> bool" where
  "wiring_after_all_generation [] = True"
| "wiring_after_all_generation (SetRelated obj f rs # es) =
     (\<not> saves_other (model_of obj) es \<and> wiring_after_all_generation es)"
| "wiring_after_all_generation (ev # es) = wiring_after_all_generation es"

subsection \<open>The creation ledger\<close>

text \<open>
  Every instance in the ledger was persisted: it has a primary key, it is a row of the store
  and its \<^verbatim>\<open>save\<close> is in the trace as \<open>SaveOk\<close>. And every instance is filed under the key
  of its own model.
\<close>

definition ledger_saved :: "state \<Rightarrow> bool" where
  "ledger_saved s =
     (\<forall>k. \<forall>obj \<in> set (ledger s k).
        pk obj \<noteq> None \<and> obj \<in> set (db_rows s (model_of obj)) \<and> SaveOk obj \<in> set (trace s))"

definition ledger_keyed :: "state \<Rightarrow> bool" where
  "ledger_keyed s = (\<forall>k. \<forall>obj \<in> set (ledger s k). model_of obj = k)"

subsection \<open>What a step may change\<close>

text \<open>
  \<open>quiet\<close>: the step leaves the ledger and the rows alone and only queries the store.
  \<open>gen_step\<close>: the step is part of the generation for the model with key \<open>k\<close>; rows are
  only added, and what its events report as saved is a row with a primary key.
  \<open>wire_step\<close>: the step only attaches, to instances the ledger holds under \<open>k\<close>.
  \<open>untouched\<close>: the step changes nothing that the processing of models reads or writes.
\<close>

definition quiet :: "state \<Rightarrow> state \<Rightarrow> bool" where
  "quiet s s' =
     (created_objects s' = created_objects s \<and> db_rows s' = db_rows s \<and>
      (\<exists>qs. trace s' = trace s @ map Query qs))"

definition gen_step :: "string \<Rightarrow> state \<Rightarrow> state \<Rightarrow> event list \<Rightarrow> bool" where
  "gen_step k s s' es =
     (trace s' = trace s @ es \<and> created_objects s' = created_objects s \<and>
      (\<forall>q. set (db_rows s q) \<subseteq> set (db_rows s' q)) \<and>
      (\<forall>ev \<in> set es. generation_of k ev) \<and>
      (\<forall>obj \<in> set (saved_of es). pk obj \<noteq> None \<and> obj \<in> set (db_rows s' (model_of obj))))"

definition wire_step :: "string \<Rightarrow> state \<Rightarrow> state \<Rightarrow> event list \<Rightarrow> bool" where
  "wire_step k s s' es =
     (trace s' = trace s @ es \<and> created_objects s' = created_objects s \<and> db_rows s' = db_rows s \<and>
      (\<forall>ev \<in> set es. \<exists>obj \<in> set (ledger s k). \<exists>f rs. ev = SetRelated obj f rs))"

definition untouched :: "state \<Rightarrow> state \<Rightarrow> bool" where
  "untouched s s' =
     (created_objects s' = created_objects s \<and> processed_models s' = processed_models s \<and>
      db_rows s' = db_rows s \<and> trace s' = trace s)"

subsection \<open>Bootstrap\<close>

text \<open>The account that \<^verbatim>\<open>create_superuser\<close> is called for.\<close>

definition admin_user :: user where
  "admin_user = \<lparr>username = ''admin'', email = ''admin@example.com'', password = ''admin'',
     is_superuser = True\<rparr>"

text \<open>The store of a completed bootstrap: the three groups and a superuser exist.\<close>

definition auth_done :: "state \<Rightarrow> bool" where
  "auth_done s = (set groups \<subseteq> set (db_groups s) \<and> (\<exists>u \<in> set (db_users s). is_superuser u))"

section \<open>Example configurations\<close>

text \<open>
  An environment without database faults, one whose first database call fails, and the
  state of a fresh command over an empty database and over the database a bootstrap leaves.
\<close>

definition env0 :: env where
  "env0 =
     \<lparr>get_models = [],
      faker_email = (\<lambda>n. Inr ''christopher.rodriguez@example.org''),
      faker_phone_number = (\<lambda>n. Inr ''555-0100''),
      faker_name = (\<lambda>n. Inr ''Ada Lovelace''),
      faker_text = (\<lambda>k n. if k < 5 then Inl ValueError else Inr (take k ''Lorem ipsum dolor sit amet.'')),
      faker_date_time_this_decade = (\<lambda>n. Inr n),
      faker_date_this_decade = (\<lambda>n. Inr n),
      faker_boolean = (\<lambda>n. Inr (even n)),
      faker_random_int = (\<lambda>lo hi n. Inr (lo + int n mod (hi - lo + 1))),
      faker_pydecimal = (\<lambda>l r p n. if l < 0 \<or> r < 0 \<or> (l = 0 \<and> r = 0) then Inl ValueError
                                     else Inr (Decimal False (n mod 10 ^ (nat l + nat r)) (nat r))),
      faker_url = (\<lambda>n. Inr ''https://example.org/''),
      random_bits = (\<lambda>n. n),
      timezone_now = (\<lambda>n. 1000 + n),
      db_fault = (\<lambda>n. None)\<rparr>"

definition env_down :: env where
  "env_down = env0\<lparr>db_fault := (\<lambda>n. if n = 0 then Some DatabaseError else None)\<rparr>"

definition s0 :: state where
  "s0 = init (\<lambda>k. []) [] [] 1"

definition s_boot :: state where
  "s_boot = s0\<lparr>db_groups := groups, db_users := [admin_user], db_ops := 5\<rparr>"

text \<open>Fields and models.\<close>

definition plain :: "field_class \<Rightarrow> string \<Rightarrow> field" where
  "plain c n = \<lparr>fclass = c, name = n, max_length = None, max_digits = None,
     decimal_places = None, remote_field = None, default_value = VNone\<rparr>"

definition contact_field :: field where
  "contact_field = (plain EmailField ''contact'')\<lparr>max_length := Some 254\<rparr>"

definition user_email_field :: field where
  "user_email_field = (plain CharField ''user_email'')\<lparr>max_length := Some 30\<rparr>"

definition price_field :: field where
  "price_field = (plain DecimalField ''price'')\<lparr>max_digits := Some 5, decimal_places := Some 2\<rparr>"

definition rating_field :: field where
  "rating_field = (plain FloatField ''rating'')\<lparr>default_value := VInt 3\<rparr>"

definition review_model :: model where
  "review_model = \<lparr>app_label = ''crm'', model_name = ''review'', label = ''crm.Review'',
     abstract = False, meta_fields = [plain AutoField ''id'', rating_field], many_to_many = []\<rparr>"

definition env1 :: env where
  "env1 = env0\<lparr>get_models := [review_model]\<rparr>"

text \<open>A relationship field, and a ledger that holds one instance of its target.\<close>

definition owner_field :: field where
  "owner_field = (plain ForeignKey ''owner'')\<lparr>remote_field := Some (''crm'', ''company'')\<rparr>"

definition acme :: inst where
  "acme = Instance ''crm.company'' (Some 1) [(''id'', VNone), (''title'', VStr ''Acme'')]"

definition s_acme :: state where
  "s_acme = s0\<lparr>created_objects := [''crm.company'' \<mapsto> [acme]]\<rparr>"

text \<open>Two models; the first has a many-to-many field to itself.\<close>

definition related_field :: field where
  "related_field = (plain ManyToManyField ''related'')\<lparr>remote_field := Some (''crm'', ''tag'')\<rparr>"

definition tag_model :: model where
  "tag_model = \<lparr>app_label = ''crm'', model_name = ''tag'', label = ''crm.Tag'', abstract = False,
     meta_fields = [plain AutoField ''id'', (plain CharField ''name'')\<lparr>max_length := Some 20\<rparr>],
     many_to_many = [related_field]\<rparr>"

definition city_model :: model where
  "city_model = \<lparr>app_label = ''crm'', model_name = ''city'', label = ''crm.City'', abstract = False,
     meta_fields = [plain AutoField ''id'', (plain CharField ''name'')\<lparr>max_length := Some 20\<rparr>],
     many_to_many = []\<rparr>"

section \<open>The field value synthesizer\<close>

lemma ndigits_le3: "n < 1000 \<Longrightarrow> ndigits n \<le> 3"
proof -
  assume n: "n < 1000"
  have a: "n div 10 < 100" using n by simp
  have b: "n div 10 div 10 < 10" using a by simp
  have "ndigits (n div 10 div 10) = 1" using b by (subst ndigits.simps) simp
  then have "ndigits (n div 10) \<le> 2" by (subst ndigits.simps) simp
  then show ?thesis by (subst ndigits.simps) simp
qed

lemma env0_promise: "pydecimal_promise env0 3 2"
  unfolding pydecimal_promise_def
proof
  fix n :: nat
  have "n mod 10 ^ (3 + 2) div 10 ^ 2 < (10::nat) ^ 3"
    by (simp add: less_mult_imp_div_less)
  then show "\<exists>d. faker_pydecimal env0 3 2 True n = Inr d \<and> \<not> negative d \<and> places d = nat 2 \<and>
             coefficient d div 10 ^ nat 2 < 10 ^ nat 3"
    by (simp add: env0_def)
qed

text \<open>
  C5. A field of class \<^verbatim>\<open>EmailField\<close> is an instance of \<^verbatim>\<open>CharField\<close>, so the first test
  of \<^verbatim>\<open>generate_field_value\<close> takes it and the branch of line 199 is never reached: the
  field named \<^verbatim>\<open>contact\<close> gets the text of \<^verbatim>\<open>faker.text(254)\<close>, which in the example is no
  email address.
\<close>

theorem email_field_gets_text:
  "fst (generate_field_value e contact_field s) =
     (case faker_text e 254 (rng s) of Inl err \<Rightarrow> VNone | Inr v \<Rightarrow> VStr (slice_to 254 v))
   \<and> fst (generate_field_value env0 contact_field s0) = VStr ''Lorem ipsum dolor sit amet.''
   \<and> \<not> email_shape ''Lorem ipsum dolor sit amet.''"
proof -
  have "fst (generate_field_value e contact_field s) =
     (case faker_text e 254 (rng s) of Inl err \<Rightarrow> VNone | Inr v \<Rightarrow> VStr (slice_to 254 v))"
    by (simp add: generate_field_value_def contact_field_def plain_def isinstance_def caught_def
        lower_def lower_char_def endswith_def split: sum.splits)
  moreover have "fst (generate_field_value env0 contact_field s0) = VStr ''Lorem ipsum dolor sit amet.''"
    by (simp add: generate_field_value_def contact_field_def plain_def isinstance_def caught_def
        lower_def lower_char_def endswith_def env0_def s0_def init_def slice_to_def tick_def)
  moreover have "\<not> email_shape ''Lorem ipsum dolor sit amet.''"
    by (simp add: email_shape_def)
  ultimately show ?thesis by blast
qed

text \<open>
  C6. For the \<^verbatim>\<open>CharField\<close> named \<^verbatim>\<open>user_email\<close> with \<^verbatim>\<open>max_length=30\<close> the synthesizer
  returns what \<^verbatim>\<open>faker.email()\<close> gave, whole: the branch has no slice, unlike the branches
  for phone numbers, names and text. An address of 33 characters comes back with 33
  characters.
\<close>

theorem user_email_not_truncated:
  "fst (generate_field_value e user_email_field s) =
     (case faker_email e (rng s) of Inl err \<Rightarrow> VNone | Inr v \<Rightarrow> VStr v)
   \<and> fst (generate_field_value env0 user_email_field s0) = VStr ''christopher.rodriguez@example.org''
   \<and> email_shape ''christopher.rodriguez@example.org''
   \<and> length ''christopher.rodriguez@example.org'' = 33"
proof -
  have "fst (generate_field_value e user_email_field s) =
     (case faker_email e (rng s) of Inl err \<Rightarrow> VNone | Inr v \<Rightarrow> VStr v)"
    by (simp add: generate_field_value_def user_email_field_def plain_def isinstance_def caught_def
        lower_def lower_char_def endswith_def split: sum.splits)
  moreover have "fst (generate_field_value env0 user_email_field s0) = VStr ''christopher.rodriguez@example.org''"
    by (simp add: generate_field_value_def user_email_field_def plain_def isinstance_def caught_def
        lower_def lower_char_def endswith_def env0_def s0_def init_def tick_def)
  moreover have "email_shape ''christopher.rodriguez@example.org''"
    by (simp add: email_shape_def)
  ultimately show ?thesis by simp
qed

text \<open>
  C9. For a \<^verbatim>\<open>DecimalField\<close> with \<^verbatim>\<open>max_digits=5\<close> and \<^verbatim>\<open>decimal_places=2\<close> the synthesizer
  asks the library for 3 integer digits, 2 fractional digits and a positive sign; with a
  library that keeps its promise for that call the value has at most 3 integer digits,
  exactly 2 fractional digits and is not negative.
\<close>

theorem decimal_5_2:
  assumes "pydecimal_promise e 3 2" and "fclass f = DecimalField"
    and "max_digits f = Some 5" and "decimal_places f = Some 2"
  shows "\<exists>d. fst (generate_field_value e f s) = VDecimal d \<and> integer_digits d \<le> 3 \<and>
             places d = 2 \<and> \<not> negative d"
proof -
  from assms(1) obtain d where d: "faker_pydecimal e 3 2 True (rng s) = Inr d" "\<not> negative d"
    "places d = nat 2" "coefficient d div 10 ^ nat 2 < 10 ^ nat 3"
    unfolding pydecimal_promise_def by blast
  have v: "fst (generate_field_value e f s) = VDecimal d"
    using assms(2-4) d(1) by (simp add: generate_field_value_def isinstance_def caught_def)
  have "coefficient d div 10 ^ places d < 1000" using d(3,4) by simp
  then have "integer_digits d \<le> 3" unfolding integer_digits_def by (rule ndigits_le3)
  with v d show ?thesis by auto
qed

theorem decimal_5_2_witness:
  "\<exists>d. fst (generate_field_value env0 price_field s0) = VDecimal d \<and> integer_digits d \<le> 3 \<and>
             places d = 2 \<and> \<not> negative d"
  using decimal_5_2 [OF env0_promise, of price_field s0]
  by (simp add: price_field_def plain_def)

subsection \<open>Relationships\<close>

lemma choice_in: "xs \<noteq> [] \<Longrightarrow> choice e n xs \<in> set xs"
  by (simp add: choice_def)

text \<open>
  C7. For a single-valued relationship field: when the ledger and the store hold no
  instance of the target model the resolver returns \<^verbatim>\<open>None\<close> after its one query of the
  store, with nothing logged and no exception (also when the query itself raises); when the
  ledger holds instances it returns one of them and the state shows no query, only the
  random draw.
\<close>

theorem relationship_resolver:
  assumes "fclass f = ForeignKey \<or> fclass f = OneToOneField"
    and "remote_field f = Some (a, m)"
  shows "(ledger s (dotted a m) = [] \<and> db_rows s (dotted a m) = [] \<longrightarrow>
            generate_field_value e f s =
              (VNone, (db_called s)\<lparr>trace := trace s @ [Query (dotted a m)]\<rparr>))
       \<and> (ledger s (dotted a m) \<noteq> [] \<longrightarrow>
            (\<exists>obj \<in> set (ledger s (dotted a m)). generate_field_value e f s = (VObj obj, tick s)))"
proof -
  have fk: "isinstance f ForeignKey"
    using assms(1) by (auto simp: isinstance_def)
  have no: "\<not> isinstance f CharField" "\<not> isinstance f TextField" "\<not> isinstance f DateTimeField"
    "\<not> isinstance f DateField" "\<not> isinstance f BooleanField" "\<not> isinstance f IntegerField"
    "\<not> isinstance f SmallIntegerField" "\<not> isinstance f DecimalField" "\<not> isinstance f URLField"
    using assms(1) by (auto simp: isinstance_def)
  have g: "generate_field_value e f s = related_value e f s"
    by (simp add: generate_field_value_def fk no)
  have "ledger s (dotted a m) = [] \<and> db_rows s (dotted a m) = [] \<longrightarrow>
            related_value e f s = (VNone, (db_called s)\<lparr>trace := trace s @ [Query (dotted a m)]\<rparr>)"
    using assms(2) by (simp add: related_value_def Let_def split: option.splits)
  moreover have "ledger s (dotted a m) \<noteq> [] \<longrightarrow>
            (\<exists>obj \<in> set (ledger s (dotted a m)). related_value e f s = (VObj obj, tick s))"
    using assms(2) by (simp add: related_value_def Let_def choice_in)
  ultimately show ?thesis using g by simp
qed

theorem relationship_resolver_witness:
  "generate_field_value env0 owner_field s0 =
      (VNone, (db_called s0)\<lparr>trace := trace s0 @ [Query ''crm.company'']\<rparr>)
   \<and> generate_field_value env0 owner_field s_acme = (VObj acme, tick s_acme)"
proof -
  have 1: "fclass owner_field = ForeignKey \<or> fclass owner_field = OneToOneField"
    by (simp add: owner_field_def plain_def)
  have 2: "remote_field owner_field = Some (''crm'', ''company'')"
    by (simp add: owner_field_def plain_def)
  have 5: "dotted ''crm'' ''company'' = ''crm.company''" by (simp add: dotted_def)
  have 3: "ledger s0 ''crm.company'' = [] \<and> db_rows s0 ''crm.company'' = []"
    by (simp add: s0_def init_def ledger_def)
  have 4: "ledger s_acme ''crm.company'' = [acme]"
    by (simp add: s_acme_def s0_def init_def ledger_def)
  note r = relationship_resolver [OF 1 2, unfolded 5]
  have a: "generate_field_value env0 owner_field s0 =
      (VNone, (db_called s0)\<lparr>trace := trace s0 @ [Query ''crm.company'']\<rparr>)"
    using r [of s0 env0] 3 by simp
  have "\<exists>obj \<in> set (ledger s_acme ''crm.company'').
          generate_field_value env0 owner_field s_acme = (VObj obj, tick s_acme)"
    using r [of s_acme env0] 4 by simp
  then have b: "generate_field_value env0 owner_field s_acme = (VObj acme, tick s_acme)"
    unfolding 4 by simp
  from a b show ?thesis by (rule conjI)
qed

subsection \<open>Fields of a class the synthesizer does not know\<close>

lemma unrecognized_none: "\<not> recognized f \<Longrightarrow> generate_field_value e f s = (VNone, s)"
  by (simp add: recognized_def generate_field_value_def)

lemma map_of_assign: "map_of (assign k v ps) k' = (if k' = k then Some v else map_of ps k')"
  by (induction ps) auto

lemma getattr_setattr: "getattr (setattr obj k v) k' = (if k' = k then Some v else getattr obj k')"
  by (simp add: getattr_def setattr_def map_of_assign)

lemma set_fields_other:
  "k \<notin> name ` set fs \<Longrightarrow> getattr (fst (set_fields e fs obj s)) k = getattr obj k"
  by (induction fs arbitrary: obj s) (auto simp: getattr_setattr split: prod.splits)

lemma set_fields_unrecognized:
  "f \<in> set fs \<Longrightarrow> distinct (map name fs) \<Longrightarrow> \<not> recognized f \<Longrightarrow> name f \<notin> {''id'', ''pk''} \<Longrightarrow>
   getattr (fst (set_fields e fs obj s)) (name f) = Some VNone"
proof (induction fs arbitrary: obj s)
  case Nil
  then show ?case by simp
next
  case (Cons g fs)
  show ?case
  proof (cases "g = f")
    case True
    have "name f \<notin> name ` set fs" using Cons.prems(2) True by auto
    then show ?thesis
      using True Cons.prems(3,4)
      by (simp add: unrecognized_none set_fields_other getattr_setattr)
  next
    case False
    then have "f \<in> set fs" "distinct (map name fs)" using Cons.prems by auto
    then show ?thesis
      using Cons.IH Cons.prems(3,4) by (auto split: prod.splits)
  qed
qed

text \<open>
  C4, as the code has it. For a field of a class that no \<^verbatim>\<open>isinstance\<close> test recognizes the
  synthesizer returns \<^verbatim>\<open>None\<close> and changes nothing, and \<^verbatim>\<open>create_model_instance\<close> assigns
  that \<^verbatim>\<open>None\<close> to the attribute (its \<^verbatim>\<open>setattr\<close> is unconditional; only the fields named
  \<^verbatim>\<open>id\<close> and \<^verbatim>\<open>pk\<close> are skipped): the attribute of the constructed instance is \<^verbatim>\<open>None\<close>,
  whatever the declared default.
\<close>

theorem unrecognized_field_set_to_none:
  assumes "\<not> recognized f" and "f \<in> set (meta_fields m)" and "name f \<notin> {''id'', ''pk''}"
    and "distinct (map name (meta_fields m))"
  shows "generate_field_value e f s = (VNone, s)
       \<and> getattr (fst (create_model_instance e m s)) (name f) = Some VNone"
  using assms by (simp add: unrecognized_none create_model_instance_def set_fields_unrecognized)

theorem unrecognized_field_set_to_none_witness:
  "generate_field_value env0 rating_field s0 = (VNone, s0)
       \<and> getattr (fst (create_model_instance env0 review_model s0)) ''rating'' = Some VNone"
proof -
  have 1: "\<not> recognized rating_field"
    by (simp add: recognized_def isinstance_def rating_field_def plain_def)
  have 2: "rating_field \<in> set (meta_fields review_model)" by (simp add: review_model_def)
  have 3: "name rating_field \<notin> {''id'', ''pk''}" by (simp add: rating_field_def plain_def)
  have 4: "distinct (map name (meta_fields review_model))"
    by (simp add: review_model_def rating_field_def plain_def)
  have 5: "name rating_field = ''rating''" by (simp add: rating_field_def plain_def)
  show ?thesis using unrecognized_field_set_to_none [OF 1 2 3 4, of env0 s0] 5 by simp
qed

text \<open>
  C4, as the claim states it, fails: the \<^verbatim>\<open>FloatField\<close> named \<^verbatim>\<open>rating\<close> with default 3
  holds 3 after \<^verbatim>\<open>model()\<close> and no longer holds it in the instance the builder returns.
\<close>

theorem default_overwritten:
  "getattr (new_instance review_model) ''rating'' = Some (default_value rating_field)
   \<and> getattr (fst (create_model_instance env0 review_model s0)) ''rating'' \<noteq> Some (default_value rating_field)"
  by (simp add: create_model_instance_def new_instance_def review_model_def rating_field_def plain_def
      getattr_def setattr_def generate_field_value_def isinstance_def model_key_def)

section \<open>Generation, wiring and the creation ledger\<close>

lemma saved_of_append: "saved_of (xs @ ys) = saved_of xs @ saved_of ys"
  by (induction xs rule: saved_of.induct) auto

lemma saved_of_queries: "saved_of (map Query qs) = []"
  by (induction qs) auto

lemma quiet_refl: "quiet s s"
  unfolding quiet_def by (auto intro: exI [of _ "[]"])

lemma quiet_trans: "quiet s s1 \<Longrightarrow> quiet s1 s2 \<Longrightarrow> quiet s s2"
  unfolding quiet_def
  by (auto simp flip: map_append)

lemma quiet_tick: "quiet s (tick s)"
  unfolding quiet_def tick_def by (auto intro: exI [of _ "[]"])

lemma quiet_caught: "quiet s s1 \<Longrightarrow> quiet s (snd (caught f s1 r))"
  unfolding quiet_def caught_def by (auto split: sum.splits)

lemma quiet_related: "quiet s (snd (related_value e f s))"
proof -
  have q: "\<And>k. quiet s ((db_called s)\<lparr>trace := trace s @ [Query k]\<rparr>)"
    unfolding quiet_def db_called_def by (auto intro: exI [of _ "[k]" for k])
  have t: "\<And>k. quiet s (tick ((db_called s)\<lparr>trace := trace s @ [Query k]\<rparr>))"
    unfolding quiet_def db_called_def tick_def by (auto intro: exI [of _ "[k]" for k])
  show ?thesis
    by (simp add: related_value_def Let_def quiet_caught quiet_refl quiet_tick q t
        split: option.splits prod.splits)
qed

lemma quiet_generate: "quiet s (snd (generate_field_value e f s))"
  by (simp add: generate_field_value_def Let_def quiet_caught quiet_refl quiet_tick quiet_related
      split: option.splits prod.splits)

lemma quiet_set_fields: "quiet s (snd (set_fields e fs obj s))"
proof (induction fs arbitrary: obj s)
  case Nil
  show ?case by (simp add: quiet_refl)
next
  case (Cons f fs)
  show ?case
  proof (cases "name f \<in> {''id'', ''pk''}")
    case True
    then show ?thesis using Cons.IH by simp
  next
    case False
    obtain v s1 where g: "generate_field_value e f s = (v, s1)" by (cases "generate_field_value e f s")
    have "quiet s s1" using quiet_generate [of s e f] g by simp
    moreover have "quiet s1 (snd (set_fields e fs (setattr obj (name f) v) s1))" by (rule Cons.IH)
    ultimately show ?thesis using False g by (simp add: quiet_trans)
  qed
qed

lemma set_fields_frame:
  "model_of (fst (set_fields e fs obj s)) = model_of obj \<and> pk (fst (set_fields e fs obj s)) = pk obj"
  by (induction fs arbitrary: obj s) (auto simp: setattr_def split: prod.splits)

lemma create_model_instance_facts:
  "quiet s (snd (create_model_instance e m s))"
  "model_of (fst (create_model_instance e m s)) = model_key m"
  "pk (fst (create_model_instance e m s)) = None"
  by (simp_all add: create_model_instance_def quiet_set_fields set_fields_frame new_instance_def)

lemma saved_of_mem: "obj \<in> set (saved_of es) \<Longrightarrow> SaveOk obj \<in> set es"
  by (induction es rule: saved_of.induct) auto

lemma gen_step_refl: "gen_step k s s []"
  by (simp add: gen_step_def)

lemma gen_step_trans:
  "gen_step k s s1 es1 \<Longrightarrow> gen_step k s1 s2 es2 \<Longrightarrow> gen_step k s s2 (es1 @ es2)"
  unfolding gen_step_def by (auto simp: saved_of_append) blast+

lemma gen_step_quiet: "quiet s s' \<Longrightarrow> \<exists>es. gen_step k s s' es \<and> saved_of es = []"
  unfolding quiet_def gen_step_def
  by (auto simp: saved_of_queries)

lemma gen_step_logged: "gen_step k s s' es \<Longrightarrow> gen_step k s (s'\<lparr>logged := l\<rparr>) es"
  by (simp add: gen_step_def)

lemma save_step:
  "save e obj s = (r, s') \<Longrightarrow>
   \<exists>ev. gen_step (model_of obj) s s' [ev] \<and>
        (case r of Inl err \<Rightarrow> saved_of [ev] = [] | Inr obj' \<Rightarrow> saved_of [ev] = [obj'])"
  by (auto simp: save_def gen_step_def db_called_def Let_def split: option.splits)

lemma create_objects_step:
  "create_objects e m is acc s = (acc', s') \<Longrightarrow>
   \<exists>es. gen_step (model_key m) s s' es \<and> acc' = acc @ saved_of es"
proof (induction "is" arbitrary: acc s)
  case Nil
  then show ?case by (auto intro: exI [of _ "[]"] simp: gen_step_refl)
next
  case (Cons i "is")
  obtain obj s1 where c: "create_model_instance e m s = (obj, s1)"
    by (cases "create_model_instance e m s")
  obtain r s2 where sv: "save e obj s1 = (r, s2)" by (cases "save e obj s1")
  have mo: "model_of obj = model_key m" and q: "quiet s s1"
    using create_model_instance_facts [where s=s and e=e and m=m] c by simp_all
  from gen_step_quiet [OF q] obtain es1 where
    es1: "gen_step (model_key m) s s1 es1" "saved_of es1 = []" by blast
  from save_step [OF sv] mo obtain ev where
    ev: "gen_step (model_key m) s1 s2 [ev]"
      "case r of Inl err \<Rightarrow> saved_of [ev] = [] | Inr obj' \<Rightarrow> saved_of [ev] = [obj']"
    by auto
  have s12: "gen_step (model_key m) s s2 (es1 @ [ev])" by (rule gen_step_trans [OF es1(1) ev(1)])
  show ?case
  proof (cases r)
    case (Inl err)
    let ?s3 = "s2\<lparr>logged := logged s2 @ [ErrorInstance i (model_key m) err]\<rparr>"
    have rec: "create_objects e m is acc ?s3 = (acc', s')"
      using Cons.prems c sv Inl by simp
    from Cons.IH [OF rec] obtain es where
      es: "gen_step (model_key m) ?s3 s' es" "acc' = acc @ saved_of es" by blast
    have "gen_step (model_key m) s ?s3 (es1 @ [ev])" by (rule gen_step_logged [OF s12])
    then have "gen_step (model_key m) s s' ((es1 @ [ev]) @ es)" using es(1) by (rule gen_step_trans)
    moreover have "saved_of ((es1 @ [ev]) @ es) = saved_of es1 @ saved_of [ev] @ saved_of es"
      by (simp only: saved_of_append append_assoc)
    then have "acc' = acc @ saved_of ((es1 @ [ev]) @ es)"
      using es(2) es1(2) ev(2) Inl by simp
    ultimately show ?thesis by blast
  next
    case (Inr obj')
    have rec: "create_objects e m is (acc @ [obj']) s2 = (acc', s')"
      using Cons.prems c sv Inr by simp
    from Cons.IH [OF rec] obtain es where
      es: "gen_step (model_key m) s2 s' es" "acc' = (acc @ [obj']) @ saved_of es" by blast
    have "gen_step (model_key m) s s' ((es1 @ [ev]) @ es)" using s12 es(1) by (rule gen_step_trans)
    moreover have "saved_of ((es1 @ [ev]) @ es) = saved_of es1 @ saved_of [ev] @ saved_of es"
      by (simp only: saved_of_append append_assoc)
    then have "acc' = acc @ saved_of ((es1 @ [ev]) @ es)"
      using es(2) es1(2) ev(2) Inr by simp
    ultimately show ?thesis by blast
  qed
qed

lemma generate_step:
  "\<exists>es. gen_step (model_key m) s
          ((generate_data_for_model e m s)\<lparr>created_objects := created_objects s\<rparr>) es \<and>
        created_objects (generate_data_for_model e m s) =
          (if abstract m then created_objects s
           else (created_objects s)(model_key m \<mapsto> saved_of es))"
proof (cases "abstract m")
  case True
  then show ?thesis
    by (auto intro!: exI [of _ "[]"] simp: generate_data_for_model_def gen_step_def)
next
  case False
  let ?s0 = "s\<lparr>stdout := stdout s @ [Generating (model_key m)]\<rparr>"
  obtain created s1 where c: "create_objects e m [0..<100] [] ?s0 = (created, s1)"
    by (cases "create_objects e m [0..<100] [] ?s0")
  from create_objects_step [OF c] obtain es where
    es: "gen_step (model_key m) ?s0 s1 es" "created = saved_of es" by auto
  have g: "generate_data_for_model e m s =
      s1\<lparr>processed_models := insert (model_key m) (processed_models s1),
         created_objects := (created_objects s1)(model_key m \<mapsto> created)\<rparr>"
    using False c by (simp add: generate_data_for_model_def Let_def)
  have "gen_step (model_key m) s ((generate_data_for_model e m s)\<lparr>created_objects := created_objects s\<rparr>) es"
    using es(1) unfolding g gen_step_def by simp
  moreover have "created_objects (generate_data_for_model e m s) = (created_objects s)(model_key m \<mapsto> saved_of es)"
    using es unfolding g gen_step_def by simp
  ultimately show ?thesis using False by auto
qed

lemma generate_facts:
  obtains es where "trace (generate_data_for_model e m s) = trace s @ es"
    and "\<forall>ev \<in> set es. generation_of (model_key m) ev"
    and "\<forall>q. set (db_rows s q) \<subseteq> set (db_rows (generate_data_for_model e m s) q)"
    and "\<forall>obj \<in> set (saved_of es). pk obj \<noteq> None \<and>
           obj \<in> set (db_rows (generate_data_for_model e m s) (model_of obj))"
    and "created_objects (generate_data_for_model e m s) =
          (if abstract m then created_objects s
           else (created_objects s)(model_key m \<mapsto> saved_of es))"
proof -
  from generate_step [of m s e] obtain es where
    "gen_step (model_key m) s ((generate_data_for_model e m s)\<lparr>created_objects := created_objects s\<rparr>) es"
    "created_objects (generate_data_for_model e m s) =
          (if abstract m then created_objects s
           else (created_objects s)(model_key m \<mapsto> saved_of es))"
    by blast
  then show ?thesis using that [of es] unfolding gen_step_def by simp
qed

lemma saved_generation: 
  "obj \<in> set (saved_of es) \<Longrightarrow> \<forall>ev \<in> set es. generation_of k ev \<Longrightarrow> model_of obj = k"
  using saved_of_mem by fastforce

lemma ledger_saved_generate:
  assumes "ledger_saved s"
  shows "ledger_saved (generate_data_for_model e m s)"
proof -
  let ?s' = "generate_data_for_model e m s"
  obtain es where es: "trace ?s' = trace s @ es"
    "\<forall>q. set (db_rows s q) \<subseteq> set (db_rows ?s' q)"
    "\<forall>obj \<in> set (saved_of es). pk obj \<noteq> None \<and> obj \<in> set (db_rows ?s' (model_of obj))"
    "created_objects ?s' =
          (if abstract m then created_objects s else (created_objects s)(model_key m \<mapsto> saved_of es))"
    by (rule generate_facts [of e m s]) blast
  show ?thesis
    unfolding ledger_saved_def
  proof (intro allI ballI)
    fix k obj assume o: "obj \<in> set (ledger ?s' k)"
    show "pk obj \<noteq> None \<and> obj \<in> set (db_rows ?s' (model_of obj)) \<and> SaveOk obj \<in> set (trace ?s')"
    proof (cases "\<not> abstract m \<and> k = model_key m")
      case True
      then have "obj \<in> set (saved_of es)" using o es(4) by (simp add: ledger_def)
      then show ?thesis using es(1,3) saved_of_mem by auto
    next
      case False
      then have "ledger ?s' k = ledger s k" using es(4) by (auto simp: ledger_def)
      then have "obj \<in> set (ledger s k)" using o by simp
      then have "pk obj \<noteq> None \<and> obj \<in> set (db_rows s (model_of obj)) \<and> SaveOk obj \<in> set (trace s)"
        using assms unfolding ledger_saved_def by blast
      then show ?thesis using es(1,2) by auto
    qed
  qed
qed

lemma ledger_keyed_generate:
  assumes "ledger_keyed s"
  shows "ledger_keyed (generate_data_for_model e m s)"
proof -
  let ?s' = "generate_data_for_model e m s"
  obtain es where es: "\<forall>ev \<in> set es. generation_of (model_key m) ev"
    "created_objects ?s' =
          (if abstract m then created_objects s else (created_objects s)(model_key m \<mapsto> saved_of es))"
    by (rule generate_facts [of e m s]) blast
  show ?thesis
    unfolding ledger_keyed_def
  proof (intro allI ballI)
    fix k obj assume o: "obj \<in> set (ledger ?s' k)"
    show "model_of obj = k"
    proof (cases "\<not> abstract m \<and> k = model_key m")
      case True
      then have "obj \<in> set (saved_of es)" using o es(2) by (simp add: ledger_def)
      then show ?thesis using saved_generation es(1) True by blast
    next
      case False
      then have "ledger ?s' k = ledger s k" using es(2) by (auto simp: ledger_def)
      then show ?thesis using o assms unfolding ledger_keyed_def by simp
    qed
  qed
qed

lemma wire_step_refl: "wire_step k s s []"
  by (simp add: wire_step_def)

lemma wire_step_trans:
  "wire_step k s s1 es1 \<Longrightarrow> wire_step k s1 s2 es2 \<Longrightarrow> wire_step k s s2 (es1 @ es2)"
  unfolding wire_step_def ledger_def by auto

lemma set_relations_step:
  "set_relations e f rel objs s = (r, s') \<Longrightarrow>
   \<exists>es. trace s' = trace s @ es \<and> created_objects s' = created_objects s \<and> db_rows s' = db_rows s \<and>
        (\<forall>ev \<in> set es. \<exists>obj \<in> set objs. \<exists>rs. ev = SetRelated obj (name f) rs)"
proof (induction objs arbitrary: s)
  case Nil
  then show ?case by simp
next
  case (Cons obj objs)
  let ?n = "1 + random_bits e (rng s) mod min 5 (length rel)"
  let ?s1 = "s\<lparr>rng := Suc (rng s) + ?n\<rparr>"
  show ?case
  proof (cases "db_fault e (db_ops ?s1)")
    case (Some err)
    then have "s' = db_called ?s1" using Cons.prems by (simp add: Let_def)
    then show ?thesis by (simp add: db_called_def)
  next
    case None
    let ?ev = "SetRelated obj (name f) (sample e (Suc (rng s)) rel ?n)"
    let ?s2 = "(db_called ?s1)\<lparr>trace := trace ?s1 @ [?ev]\<rparr>"
    have "set_relations e f rel objs ?s2 = (r, s')" using Cons.prems None by (simp add: Let_def)
    from Cons.IH [OF this] obtain es where es: "trace s' = trace ?s2 @ es"
      "created_objects s' = created_objects ?s2" "db_rows s' = db_rows ?s2"
      "\<forall>ev \<in> set es. \<exists>obj \<in> set objs. \<exists>rs. ev = SetRelated obj (name f) rs" by blast
    have "trace s' = trace s @ (?ev # es)" using es(1) by (simp add: db_called_def)
    moreover have "created_objects s' = created_objects s" "db_rows s' = db_rows s"
      using es(2,3) by (simp_all add: db_called_def)
    moreover have "\<forall>ev \<in> set (?ev # es). \<exists>ob \<in> set (obj # objs). \<exists>rs. ev = SetRelated ob (name f) rs"
      using es(4) by auto
    ultimately show ?thesis by blast
  qed
qed

lemma relate_fields_step:
  "relate_fields e m fs s = (r, s') \<Longrightarrow> \<exists>es. wire_step (model_key m) s s' es"
proof (induction fs arbitrary: s)
  case Nil
  then show ?case using wire_step_refl by auto
next
  case (Cons f fs)
  show ?case
  proof (cases "remote_field f")
    case None
    then show ?thesis using Cons.prems wire_step_refl by auto
  next
    case (Some am)
    obtain a mn where am: "am = (a, mn)" by (cases am)
    show ?thesis
    proof (cases "ledger s (dotted a mn) = []")
      case True
      then have "relate_fields e m fs s = (r, s')" using Cons.prems Some am by simp
      then show ?thesis by (rule Cons.IH)
    next
      case False
      obtain r1 s1 where sr: "set_relations e f (ledger s (dotted a mn)) (ledger s (model_key m)) s = (r1, s1)"
        by (cases "set_relations e f (ledger s (dotted a mn)) (ledger s (model_key m)) s")
      from set_relations_step [OF sr] obtain es1 where t: "trace s1 = trace s @ es1"
        and c: "created_objects s1 = created_objects s" and d: "db_rows s1 = db_rows s"
        and ev: "\<forall>ev \<in> set es1. \<exists>obj \<in> set (ledger s (model_key m)). \<exists>rs. ev = SetRelated obj (name f) rs"
        by (elim exE conjE)
      have "\<forall>ev \<in> set es1. \<exists>obj \<in> set (ledger s (model_key m)). \<exists>f rs. ev = SetRelated obj f rs"
        using ev by meson
      then have w1: "wire_step (model_key m) s s1 es1"
        unfolding wire_step_def using t c d by (intro conjI)
      show ?thesis
      proof (cases r1)
        case None
        then have "relate_fields e m fs s1 = (r, s')" using Cons.prems Some am False sr by (simp add: Let_def)
        from Cons.IH [OF this] obtain es2 where "wire_step (model_key m) s1 s' es2" by blast
        with w1 show ?thesis using wire_step_trans by blast
      next
        case (Some err)
        then have "s' = s1" using Cons.prems \<open>remote_field f = Some am\<close> am False sr by (simp add: Let_def)
        with w1 show ?thesis by blast
      qed
    qed
  qed
qed

lemma wiring_facts:
  obtains es where "wire_step (model_key m) s (snd (handle_many_to_many_relations e m s)) es"
  using relate_fields_step [of e m "many_to_many m" s]
  by (cases "relate_fields e m (many_to_many m) s") (auto simp: handle_many_to_many_relations_def)

lemma ledger_saved_wire: "wire_step k s s' es \<Longrightarrow> ledger_saved s \<Longrightarrow> ledger_saved s'"
  unfolding wire_step_def ledger_saved_def ledger_def by auto

lemma ledger_keyed_wire: "wire_step k s s' es \<Longrightarrow> ledger_keyed s \<Longrightarrow> ledger_keyed s'"
  unfolding wire_step_def ledger_keyed_def ledger_def by auto

lemma ledger_saved_stdout: "ledger_saved (s\<lparr>stdout := x\<rparr>) = ledger_saved s"
  by (simp add: ledger_saved_def ledger_def)

lemma ledger_keyed_stdout: "ledger_keyed (s\<lparr>stdout := x\<rparr>) = ledger_keyed s"
  by (simp add: ledger_keyed_def ledger_def)

lemma ledger_saved_process:
  "ledger_saved s \<Longrightarrow> ledger_saved (process_models e ms s)"
proof (induction ms arbitrary: s)
  case Nil
  then show ?case by simp
next
  case (Cons m ms)
  let ?s1 = "generate_data_for_model e m s"
  obtain r s2 where h: "handle_many_to_many_relations e m ?s1 = (r, s2)"
    by (cases "handle_many_to_many_relations e m ?s1")
  obtain es where "wire_step (model_key m) ?s1 s2 es" using wiring_facts [of m ?s1 e] h by auto
  then have s2: "ledger_saved s2" using ledger_saved_wire ledger_saved_generate Cons.prems by blast
  show ?case
  proof (cases r)
    case None
    then show ?thesis using h s2 Cons.IH by simp
  next
    case (Some err)
    then show ?thesis using h s2 Cons.IH [of "s2\<lparr>stdout := stdout s2 @ [ErrorProcessing (label m) err]\<rparr>"]
      by (simp add: ledger_saved_stdout)
  qed
qed

section \<open>Bootstrap of the permission groups and the administrative account\<close>

lemma untouched_refl: "untouched s s"
  by (simp add: untouched_def)

lemma untouched_trans: "untouched s s1 \<Longrightarrow> untouched s1 s2 \<Longrightarrow> untouched s s2"
  by (simp add: untouched_def)

lemma get_or_create_group_facts:
  assumes "get_or_create_group e g s = (r, s')"
  shows "untouched s s'" and "db_users s' = db_users s"
    and "db_groups s' = db_groups s \<or> (g \<notin> set (db_groups s) \<and> db_groups s' = db_groups s @ [g])"
    and "r = None \<Longrightarrow> g \<in> set (db_groups s')"
  using assms
  by (auto simp: get_or_create_group_def untouched_def db_called_def split: option.splits if_splits)

lemma create_groups_facts:
  "create_groups e gs s = (r, s') \<Longrightarrow>
     untouched s s' \<and> db_users s' = db_users s \<and>
     set (db_groups s) \<subseteq> set (db_groups s') \<and>
     (distinct (db_groups s) \<longrightarrow> distinct (db_groups s')) \<and>
     (r = None \<longrightarrow> set gs \<subseteq> set (db_groups s')) \<and>
     (set gs \<subseteq> set (db_groups s) \<longrightarrow> db_groups s' = db_groups s)"
proof (induction gs arbitrary: s)
  case Nil
  then show ?case by (simp add: untouched_refl)
next
  case (Cons g gs)
  obtain r1 s1 where g1: "get_or_create_group e g s = (r1, s1)"
    by (cases "get_or_create_group e g s")
  note f = get_or_create_group_facts [OF g1]
  show ?case
  proof (cases r1)
    case (Some err)
    then have "s' = s1" "r = Some err" using Cons.prems g1 by simp_all
    then show ?thesis using f by auto
  next
    case None
    then have "create_groups e gs s1 = (r, s')" using Cons.prems g1 by simp
    from Cons.IH [OF this] have ih: "untouched s1 s'" "db_users s' = db_users s1"
      "set (db_groups s1) \<subseteq> set (db_groups s')"
      "distinct (db_groups s1) \<longrightarrow> distinct (db_groups s')"
      "r = None \<longrightarrow> set gs \<subseteq> set (db_groups s')"
      "set gs \<subseteq> set (db_groups s1) \<longrightarrow> db_groups s' = db_groups s1" by simp_all
    have a: "untouched s s'" using f(1) ih(1) by (rule untouched_trans)
    have b: "db_users s' = db_users s" using f(2) ih(2) by simp
    have c: "set (db_groups s) \<subseteq> set (db_groups s')" using f(3) ih(3) by auto
    have d: "distinct (db_groups s) \<longrightarrow> distinct (db_groups s')" using f(3) ih(4) by auto
    have e: "r = None \<longrightarrow> set (g # gs) \<subseteq> set (db_groups s')" using f(4) [OF None] ih(3,5) by auto
    have h: "set (g # gs) \<subseteq> set (db_groups s) \<longrightarrow> db_groups s' = db_groups s" using f(3) ih(6) by auto
    from a b c d e h show ?thesis by blast
  qed
qed

lemma superuser_exists_facts:
  assumes "superuser_exists e s = (r, s')"
  shows "untouched s s'" and "db_users s' = db_users s" and "db_groups s' = db_groups s"
    and "r = Inr b \<Longrightarrow> b = (\<exists>u \<in> set (db_users s). is_superuser u)"
  using assms
  by (auto simp: superuser_exists_def untouched_def db_called_def split: option.splits)

lemma create_superuser_facts:
  assumes "create_superuser e un em pw s = (r, s')"
  shows "untouched s s'" and "db_groups s' = db_groups s"
    and "db_users s' = db_users s \<or>
         (r = None \<and> un \<notin> username ` set (db_users s) \<and>
          db_users s' = db_users s @ [\<lparr>username = un, email = em, password = pw, is_superuser = True\<rparr>])"
    and "r = None \<Longrightarrow> \<exists>u \<in> set (db_users s'). is_superuser u"
  using assms
  by (auto simp: create_superuser_def untouched_def db_called_def split: option.splits if_splits)

lemma base_auth_body_facts:
  assumes "base_auth_body e s = (r, s')"
  shows "untouched s s'"
    and "distinct (db_groups s) \<longrightarrow> distinct (db_groups s')"
    and "db_users s' = db_users s \<or>
         ((\<forall>u \<in> set (db_users s). \<not> is_superuser u) \<and> db_users s' = db_users s @ [admin_user])"
    and "r = None \<longrightarrow> auth_done s'"
    and "auth_done s \<longrightarrow> db_groups s' = db_groups s \<and> db_users s' = db_users s"
proof -
  obtain r1 s1 where g: "create_groups e groups s = (r1, s1)" by (cases "create_groups e groups s")
  from create_groups_facts [OF g] have g1: "untouched s s1" "db_users s1 = db_users s"
    "set (db_groups s) \<subseteq> set (db_groups s1)"
    "distinct (db_groups s) \<longrightarrow> distinct (db_groups s1)"
    "r1 = None \<longrightarrow> set groups \<subseteq> set (db_groups s1)"
    "set groups \<subseteq> set (db_groups s) \<longrightarrow> db_groups s1 = db_groups s" by simp_all
  have "untouched s s' \<and> (distinct (db_groups s) \<longrightarrow> distinct (db_groups s')) \<and>
        (db_users s' = db_users s \<or>
         ((\<forall>u \<in> set (db_users s). \<not> is_superuser u) \<and> db_users s' = db_users s @ [admin_user])) \<and>
        (r = None \<longrightarrow> auth_done s') \<and>
        (auth_done s \<longrightarrow> db_groups s' = db_groups s \<and> db_users s' = db_users s)"
  proof (cases r1)
    case (Some err)
    then have "s' = s1" "r = Some err" using assms g by (simp_all add: base_auth_body_def)
    then show ?thesis using g1 by (auto simp: auth_done_def)
  next
    case None
    obtain r2 s2 where x: "superuser_exists e s1 = (r2, s2)" by (cases "superuser_exists e s1")
    note x2 = superuser_exists_facts [OF x]
    show ?thesis
    proof (cases r2)
      case (Inl err)
      then have "s' = s2" "r = Some err" using assms g None x by (simp_all add: base_auth_body_def)
      then show ?thesis using g1 x2(1,2,3) untouched_trans [OF g1(1) x2(1)] by (auto simp: auth_done_def)
    next
      case (Inr b)
      have b: "b = (\<exists>u \<in> set (db_users s). is_superuser u)" using x2(4) [OF Inr] g1(2) by simp
      show ?thesis
      proof (cases b)
        case True
        then have "s' = s2" "r = None" using assms g None x Inr by (simp_all add: base_auth_body_def)
        then show ?thesis
          using g1 x2(1,2,3) untouched_trans [OF g1(1) x2(1)] b True None by (auto simp: auth_done_def)
      next
        case False
        then have c: "create_superuser e ''admin'' ''admin@example.com'' ''admin'' s2 = (r, s')"
          using assms g None x Inr by (simp add: base_auth_body_def)
        note c3 = create_superuser_facts [OF c]
        have u: "untouched s s'" using untouched_trans [OF untouched_trans [OF g1(1) x2(1)] c3(1)] .
        have gr: "db_groups s' = db_groups s1" using c3(2) x2(3) by simp
        have us: "db_users s' = db_users s \<or>
           ((\<forall>u \<in> set (db_users s). \<not> is_superuser u) \<and> db_users s' = db_users s @ [admin_user])"
          using c3(3) x2(2) g1(2) b False by (auto simp: admin_user_def)
        have dn: "r = None \<longrightarrow> auth_done s'"
          using c3(4) gr g1(5) None by (auto simp: auth_done_def)
        have nd: "\<not> auth_done s" using b False by (auto simp: auth_done_def)
        from u gr us dn nd g1(4) show ?thesis by simp
      qed
    qed
  qed
  then show "untouched s s'"
    and "distinct (db_groups s) \<longrightarrow> distinct (db_groups s')"
    and "db_users s' = db_users s \<or>
         ((\<forall>u \<in> set (db_users s). \<not> is_superuser u) \<and> db_users s' = db_users s @ [admin_user])"
    and "r = None \<longrightarrow> auth_done s'"
    and "auth_done s \<longrightarrow> db_groups s' = db_groups s \<and> db_users s' = db_users s"
    by simp_all
qed

lemma create_base_auth_models_facts:
  shows "untouched s (create_base_auth_models e s)"
    and "distinct (db_groups s) \<longrightarrow> distinct (db_groups (create_base_auth_models e s))"
    and "db_users (create_base_auth_models e s) = db_users s \<or>
         ((\<forall>u \<in> set (db_users s). \<not> is_superuser u) \<and>
          db_users (create_base_auth_models e s) = db_users s @ [admin_user])"
    and "auth_done s \<longrightarrow> db_groups (create_base_auth_models e s) = db_groups s \<and>
          db_users (create_base_auth_models e s) = db_users s"
proof -
  obtain r s' where b: "base_auth_body e s = (r, s')" by (cases "base_auth_body e s")
  note f = base_auth_body_facts [OF b]
  have c: "create_base_auth_models e s =
     (case r of Some err \<Rightarrow> s'\<lparr>logged := logged s' @ [ErrorBaseAuth err]\<rparr> | None \<Rightarrow> s')"
    using b by (simp add: create_base_auth_models_def)
  show "untouched s (create_base_auth_models e s)"
    using f(1) unfolding c by (cases r) (simp_all add: untouched_def)
  show "distinct (db_groups s) \<longrightarrow> distinct (db_groups (create_base_auth_models e s))"
    using f(2) unfolding c by (cases r) simp_all
  show "db_users (create_base_auth_models e s) = db_users s \<or>
         ((\<forall>u \<in> set (db_users s). \<not> is_superuser u) \<and>
          db_users (create_base_auth_models e s) = db_users s @ [admin_user])"
    using f(3) unfolding c by (cases r) simp_all
  show "auth_done s \<longrightarrow> db_groups (create_base_auth_models e s) = db_groups s \<and>
          db_users (create_base_auth_models e s) = db_users s"
    using f(5) unfolding c by (cases r) simp_all
qed

lemma auth_done_store:
  "auth_done s1 \<Longrightarrow> db_groups s2 = db_groups s1 \<Longrightarrow> db_users s2 = db_users s1 \<Longrightarrow> auth_done s2"
  by (simp add: auth_done_def)

lemma boot_env0: "base_auth_body env0 s0 = (None, s_boot)"
  by (simp add: base_auth_body_def groups_def get_or_create_group_def superuser_exists_def
      create_superuser_def env0_def s0_def init_def db_called_def s_boot_def admin_user_def)

lemma boot_down: "base_auth_body env_down s0 = (Some DatabaseError, s0\<lparr>db_ops := 1\<rparr>)"
  by (simp add: base_auth_body_def groups_def get_or_create_group_def env_down_def env0_def
      s0_def init_def db_called_def)

text \<open>
  C10. The bootstrap step is idempotent. A run never leaves two groups of one name where
  there were none (the group names stay distinct); it adds at most one account, the
  superuser \<^verbatim>\<open>admin\<close>, and only when no superuser exists; after a run that completed,
  another run over the same store, with any faults, changes neither the groups nor the
  accounts. An exception inside the step is logged and \<^verbatim>\<open>handle\<close> goes on to process the
  models.
\<close>

theorem bootstrap_idempotent:
  "(distinct (db_groups s) \<longrightarrow> distinct (db_groups (create_base_auth_models e s)))
   \<and> (db_users (create_base_auth_models e s) = db_users s \<or>
        ((\<forall>u \<in> set (db_users s). \<not> is_superuser u) \<and>
         db_users (create_base_auth_models e s) = db_users s @ [admin_user]))
   \<and> (base_auth_body e s = (None, sa) \<longrightarrow> db_groups sb = db_groups sa \<longrightarrow> db_users sb = db_users sa \<longrightarrow>
        db_groups (create_base_auth_models eb sb) = db_groups sa \<and>
        db_users (create_base_auth_models eb sb) = db_users sa)
   \<and> (base_auth_body e s = (Some err, sa) \<longrightarrow>
        create_base_auth_models e s = sa\<lparr>logged := logged sa @ [ErrorBaseAuth err]\<rparr>)
   \<and> (models_to_process (get_exclude opts) (get_models e) = Inr ms \<longrightarrow>
        call_sorter sorter_found ms = Inr sorted_models \<longrightarrow>
        handle sorter_found e opts s = report (process_models e sorted_models (create_base_auth_models e s)))"
proof (intro conjI impI)
  show "distinct (db_groups s) \<Longrightarrow> distinct (db_groups (create_base_auth_models e s))"
    using create_base_auth_models_facts(2) by blast
  show "db_users (create_base_auth_models e s) = db_users s \<or>
        ((\<forall>u \<in> set (db_users s). \<not> is_superuser u) \<and>
         db_users (create_base_auth_models e s) = db_users s @ [admin_user])"
    by (rule create_base_auth_models_facts(3))
next
  assume b: "base_auth_body e s = (None, sa)" and g: "db_groups sb = db_groups sa"
    and u: "db_users sb = db_users sa"
  have "auth_done sa" using base_auth_body_facts(4) [OF b] by simp
  then have d: "auth_done sb" using g u by (rule auth_done_store)
  show "db_groups (create_base_auth_models eb sb) = db_groups sa"
    using create_base_auth_models_facts(4) [of sb eb] d g by simp
  show "db_users (create_base_auth_models eb sb) = db_users sa"
    using create_base_auth_models_facts(4) [of sb eb] d u by simp
next
  assume "base_auth_body e s = (Some err, sa)"
  then show "create_base_auth_models e s = sa\<lparr>logged := logged sa @ [ErrorBaseAuth err]\<rparr>"
    by (simp add: create_base_auth_models_def)
next
  assume "models_to_process (get_exclude opts) (get_models e) = Inr ms"
    and "call_sorter sorter_found ms = Inr sorted_models"
  then show "handle sorter_found e opts s = report (process_models e sorted_models (create_base_auth_models e s))"
    by (simp add: handle_def Let_def)
qed

theorem bootstrap_idempotent_witness:
  "distinct (db_groups s0) \<and> distinct (db_groups (create_base_auth_models env0 s0))
   \<and> base_auth_body env0 s0 = (None, s_boot)
   \<and> db_groups (create_base_auth_models env0 s_boot) = db_groups s_boot
   \<and> db_users (create_base_auth_models env0 s_boot) = db_users s_boot
   \<and> base_auth_body env_down s0 = (Some DatabaseError, s0\<lparr>db_ops := 1\<rparr>)
   \<and> create_base_auth_models env_down s0 =
        s0\<lparr>db_ops := 1, logged := logged (s0\<lparr>db_ops := 1\<rparr>) @ [ErrorBaseAuth DatabaseError]\<rparr>
   \<and> handle (Some Inr) env_down (parsed_options (Some [])) s0 =
        report (process_models env_down [] (create_base_auth_models env_down s0))"
proof -
  have d: "distinct (db_groups s0)" by (simp add: s0_def init_def)
  have m: "models_to_process (get_exclude (parsed_options (Some []))) (get_models env_down) = Inr []"
    by (simp add: env_down_def env0_def)
  have c: "call_sorter (Some Inr) [] = Inr []" by (simp add: call_sorter_def)
  note a = bootstrap_idempotent [where s = s0 and e = env0 and sa = s_boot and sb = s_boot and eb = env0]
  note b = bootstrap_idempotent [where s = s0 and e = env_down and err = DatabaseError
      and sa = "s0\<lparr>db_ops := 1\<rparr>" and opts = "parsed_options (Some [])" and ms = "[]"
      and sorter_found = "Some Inr" and sorted_models = "[]"]
  show ?thesis using a b d m c boot_env0 boot_down by simp
qed

section \<open>The run as a whole\<close>

lemma ledger_saved_untouched: "untouched s s' \<Longrightarrow> ledger_saved s \<Longrightarrow> ledger_saved s'"
  by (simp add: untouched_def ledger_saved_def ledger_def)

lemma ledger_saved_failed: "ledger_saved (failed err s) = ledger_saved s"
  by (simp add: failed_def ledger_saved_def ledger_def)

lemma ledger_saved_report: "ledger_saved (report s) = ledger_saved s"
  by (simp add: report_def Let_def ledger_saved_def ledger_def)

lemma ledger_saved_handle:
  assumes "ledger_saved s"
  shows "ledger_saved (handle sorter_found e opts s)"
proof -
  have b: "ledger_saved (create_base_auth_models e s)"
    using create_base_auth_models_facts(1) assms by (rule ledger_saved_untouched)
  show ?thesis
    by (simp add: handle_def Let_def ledger_saved_failed ledger_saved_report b ledger_saved_process
        split: sum.splits)
qed

text \<open>
  C8. The creation ledger holds only instances whose \<^verbatim>\<open>save\<close> completed: every instance in
  it has a primary key, is a row of the store and has a \<^verbatim>\<open>SaveOk\<close> event. Each method of
  the run keeps this, so it holds at every point of a run that starts with it (a fresh
  command has an empty ledger). The entry written for a model is exactly the list of the
  instances saved while the model was generated, so an instance whose \<^verbatim>\<open>save\<close> raised is not
  in it.
\<close>

theorem ledger_only_saved:
  assumes "ledger_saved s"
  shows "ledger_saved (generate_data_for_model e m s)
       \<and> ledger_saved (snd (handle_many_to_many_relations e m s))
       \<and> ledger_saved (process_models e ms s)
       \<and> ledger_saved (handle sorter_found e opts s)
       \<and> (\<exists>es. trace (generate_data_for_model e m s) = trace s @ es \<and>
               (\<not> abstract m \<longrightarrow> ledger (generate_data_for_model e m s) (model_key m) = saved_of es))"
proof -
  have a: "ledger_saved (generate_data_for_model e m s)"
    using assms by (rule ledger_saved_generate)
  obtain ws where "wire_step (model_key m) s (snd (handle_many_to_many_relations e m s)) ws"
    by (rule wiring_facts)
  then have b: "ledger_saved (snd (handle_many_to_many_relations e m s))"
    using assms by (rule ledger_saved_wire)
  have c: "ledger_saved (process_models e ms s)" using assms by (rule ledger_saved_process)
  have d: "ledger_saved (handle sorter_found e opts s)" using assms by (rule ledger_saved_handle)
  obtain es where es: "trace (generate_data_for_model e m s) = trace s @ es"
    "created_objects (generate_data_for_model e m s) =
          (if abstract m then created_objects s else (created_objects s)(model_key m \<mapsto> saved_of es))"
    by (rule generate_facts [of e m s]) blast
  have "\<not> abstract m \<longrightarrow> ledger (generate_data_for_model e m s) (model_key m) = saved_of es"
    using es(2) by (simp add: ledger_def)
  with es(1) have f: "\<exists>es. trace (generate_data_for_model e m s) = trace s @ es \<and>
               (\<not> abstract m \<longrightarrow> ledger (generate_data_for_model e m s) (model_key m) = saved_of es)"
    by blast
  from a b c d f show ?thesis by blast
qed

theorem ledger_only_saved_witness:
  "ledger_saved s0
   \<and> ledger_saved (generate_data_for_model env1 review_model s0)
   \<and> ledger_saved (snd (handle_many_to_many_relations env1 review_model s0))
   \<and> ledger_saved (process_models env1 [review_model] s0)
   \<and> ledger_saved (handle (Some Inr) env1 (parsed_options (Some [])) s0)
   \<and> (\<exists>es. trace (generate_data_for_model env1 review_model s0) = trace s0 @ es \<and>
           (\<not> abstract review_model \<longrightarrow>
              ledger (generate_data_for_model env1 review_model s0) (model_key review_model) = saved_of es))"
proof -
  have h: "ledger_saved s0" by (simp add: ledger_saved_def ledger_def s0_def init_def)
  from ledger_only_saved [OF h, of env1 review_model "[review_model]" "Some Inr" "parsed_options (Some [])"] h
  show ?thesis by (intro conjI) blast+
qed

lemma models_to_process_none: "ms \<noteq> [] \<Longrightarrow> models_to_process None ms = Inl TypeError"
  by (cases ms) (simp_all add: not_in_def)

lemma untouched_failed: "untouched s (failed err s)"
  by (simp add: untouched_def failed_def)

text \<open>
  C2. Without \<^verbatim>\<open>--exclude\<close> the options hold \<^verbatim>\<open>None\<close> under \<^verbatim>\<open>exclude\<close>, so the default
  \<^verbatim>\<open>[]\<close> of \<^verbatim>\<open>options.get\<close> is not used; with at least one installed model the membership
  test of the comprehension raises \<^verbatim>\<open>TypeError\<close>, which only the \<^verbatim>\<open>except\<close> of \<^verbatim>\<open>handle\<close>
  catches: the run ends after the bootstrap with the failure message, and the ledger, the
  set of processed models, the rows of the store and the trace of saves are as before.
  The models imported in line 11 are installed in every project that can load the command,
  so the registry is never empty.
\<close>

theorem no_exclude_fails:
  assumes "get_models e \<noteq> []"
  shows "get_exclude (parsed_options None) = None
       \<and> models_to_process (get_exclude (parsed_options None)) (get_models e) = Inl TypeError
       \<and> handle sorter_found e (parsed_options None) s = failed TypeError (create_base_auth_models e s)
       \<and> untouched s (handle sorter_found e (parsed_options None) s)"
proof -
  have a: "get_exclude (parsed_options None) = None"
    by (simp add: get_exclude_def parsed_options_def)
  have b: "models_to_process None (get_models e) = Inl TypeError"
    using assms by (rule models_to_process_none)
  have c: "handle sorter_found e (parsed_options None) s = failed TypeError (create_base_auth_models e s)"
    by (simp add: handle_def Let_def a b)
  have "untouched s (failed TypeError (create_base_auth_models e s))"
    using create_base_auth_models_facts(1) untouched_failed by (rule untouched_trans)
  with a b c show ?thesis by simp
qed

theorem no_exclude_fails_witness:
  "get_models env1 \<noteq> []
   \<and> handle (Some Inr) env1 (parsed_options None) s0 = failed TypeError (create_base_auth_models env1 s0)
   \<and> untouched s0 (handle (Some Inr) env1 (parsed_options None) s0)"
proof -
  have h: "get_models env1 \<noteq> []" by (simp add: env1_def)
  from no_exclude_fails [OF h, of "Some Inr" s0] h show ?thesis by blast
qed

lemma models_to_process_some:
  "models_to_process (Some xs) ms =
     Inr (filter (\<lambda>m. model_key m \<notin> set xs \<and> app_label m \<noteq> ''auth'') ms)"
  by (induction ms) (simp_all add: not_in_def)

text \<open>
  C1. \<^verbatim>\<open>handle\<close> calls \<^verbatim>\<open>self.sort_models_by_dependencies\<close>, which the class does not have:
  with an exclusion list given, every run of the command ends in the \<^verbatim>\<open>except\<close> of
  \<^verbatim>\<open>handle\<close> with \<^verbatim>\<open>AttributeError\<close>, no sequence of models is produced and no model is
  processed.
\<close>

theorem sort_method_missing:
  "Command_handle e (parsed_options (Some xs)) s = failed AttributeError (create_base_auth_models e s)
   \<and> untouched s (Command_handle e (parsed_options (Some xs)) s)"
proof -
  have a: "get_exclude (parsed_options (Some xs)) = Some xs"
    by (simp add: get_exclude_def parsed_options_def)
  have c: "Command_handle e (parsed_options (Some xs)) s = failed AttributeError (create_base_auth_models e s)"
    by (simp add: Command_handle_def handle_def Let_def a models_to_process_some
        Command_sort_models_by_dependencies_def call_sorter_def)
  have "untouched s (failed AttributeError (create_base_auth_models e s))"
    using create_base_auth_models_facts(1) untouched_failed by (rule untouched_trans)
  with c show ?thesis by simp
qed

section \<open>The order of generation and wiring\<close>

lemma trace_stdout: "trace (s\<lparr>stdout := x\<rparr>) = trace s"
  by simp

lemma process_models_shape:
  "ledger_keyed s \<Longrightarrow>
   \<exists>es. trace (process_models e ms s) = trace s @ es \<and> run_shape (map model_key ms) es"
proof (induction ms arbitrary: s)
  case Nil
  then show ?case by (auto intro: run_shape.nil)
next
  case (Cons m ms)
  let ?k = "model_key m"
  let ?s1 = "generate_data_for_model e m s"
  obtain g where g: "trace ?s1 = trace s @ g" "\<forall>ev \<in> set g. generation_of ?k ev"
    by (rule generate_facts [of e m s]) blast
  have k1: "ledger_keyed ?s1" using Cons.prems by (rule ledger_keyed_generate)
  obtain r s2 where h: "handle_many_to_many_relations e m ?s1 = (r, s2)"
    by (cases "handle_many_to_many_relations e m ?s1")
  obtain w where w: "wire_step ?k ?s1 s2 w" using wiring_facts [of m ?s1 e] h by auto
  have tw: "trace s2 = trace ?s1 @ w" using w by (simp add: wire_step_def)
  have "\<forall>ev \<in> set w. \<exists>obj \<in> set (ledger ?s1 ?k). \<exists>f rs. ev = SetRelated obj f rs"
    using w by (simp add: wire_step_def)
  moreover have "\<forall>obj \<in> set (ledger ?s1 ?k). model_of obj = ?k"
    using k1 by (simp add: ledger_keyed_def)
  ultimately have ww: "\<forall>ev \<in> set w. wiring_of ?k ev" by fastforce
  have k2: "ledger_keyed s2" using w k1 by (rule ledger_keyed_wire)
  let ?s3 = "case r of None \<Rightarrow> s2 | Some err \<Rightarrow> s2\<lparr>stdout := stdout s2 @ [ErrorProcessing (label m) err]\<rparr>"
  have p: "process_models e (m # ms) s = process_models e ms ?s3"
    using h by (cases r) simp_all
  have k3: "ledger_keyed ?s3" using k2 by (cases r) (simp_all add: ledger_keyed_stdout)
  have t3: "trace ?s3 = trace s2" by (cases r) simp_all
  from Cons.IH [OF k3] obtain es where
    es: "trace (process_models e ms ?s3) = trace ?s3 @ es" "run_shape (map model_key ms) es"
    by blast
  have "trace (process_models e (m # ms) s) = trace s @ (g @ w @ es)"
    using p es(1) t3 tw g(1) by simp
  moreover have "run_shape (map model_key (m # ms)) (g @ w @ es)"
    using g(2) ww es(2) by (simp add: run_shape.step)
  ultimately show ?case by blast
qed

text \<open>
  C3, as the code has it. The loop of \<^verbatim>\<open>handle\<close> calls \<^verbatim>\<open>generate_data_for_model\<close> and then
  \<^verbatim>\<open>handle_many_to_many_relations\<close> for one model before it turns to the next. The database
  calls of a run are therefore, model by model in the order of the sequence, the saves and
  queries that generate the model's instances followed by the attachments for that model's
  instances: an attachment comes after the generation of its own model and of the models
  before it, and before the generation of the models after it.
\<close>

theorem wiring_follows_own_generation:
  assumes "ledger_keyed s"
  shows "\<exists>es. trace (process_models e ms s) = trace s @ es \<and> run_shape (map model_key ms) es"
  using assms by (rule process_models_shape)

lemma ledger_keyed_s0: "ledger_keyed s0"
  by (simp add: ledger_keyed_def ledger_def s0_def init_def)

theorem wiring_follows_own_generation_witness:
  "ledger_keyed s0 \<and>
   (\<exists>es. trace (process_models env0 [tag_model, city_model] s0) = trace s0 @ es \<and>
         run_shape (map model_key [tag_model, city_model]) es)"
  using wiring_follows_own_generation [OF ledger_keyed_s0, of env0 "[tag_model, city_model]"]
    ledger_keyed_s0 by blast

lemma wiring_after_append:
  "wiring_after_all_generation (xs @ ys) \<Longrightarrow> wiring_after_all_generation ys"
  by (induction xs rule: wiring_after_all_generation.induct) auto

lemma saves_other_mem: "SaveOk obj \<in> set ys \<Longrightarrow> model_of obj \<noteq> k \<Longrightarrow> saves_other k ys"
  by (induction k ys rule: saves_other.induct) auto

lemma create_objects_count:
  "(\<And>n. db_fault e n = None) \<Longrightarrow>
   length (fst (create_objects e m is acc s)) = length acc + length is"
  by (induction "is" arbitrary: acc s) (auto simp: save_def Let_def split: prod.splits)

lemma generate_count:
  assumes "\<And>n. db_fault e n = None" and "\<not> abstract m"
  shows "length (ledger (generate_data_for_model e m s) (model_key m)) = 100"
proof -
  let ?s0 = "s\<lparr>stdout := stdout s @ [Generating (model_key m)]\<rparr>"
  have "ledger (generate_data_for_model e m s) (model_key m) = fst (create_objects e m [0..<100] [] ?s0)"
    using assms(2) by (simp add: generate_data_for_model_def Let_def ledger_def split: prod.splits)
  then show ?thesis using create_objects_count [OF assms(1), of m "[0..<100]" "[]" ?s0] by simp
qed

lemma set_relations_count:
  "(\<And>n. db_fault e n = None) \<Longrightarrow>
   length (trace (snd (set_relations e f rel objs s))) = length (trace s) + length objs"
  by (induction objs arbitrary: s) (simp_all add: Let_def db_called_def)

lemma tag_wiring:
  assumes "ledger s ''crm.tag'' \<noteq> []"
  shows "snd (handle_many_to_many_relations e tag_model s) =
         snd (set_relations e related_field (ledger s ''crm.tag'') (ledger s ''crm.tag'') s)"
  using assms
  by (simp add: handle_many_to_many_relations_def tag_model_def related_field_def plain_def
      dotted_def model_key_def Let_def split: prod.splits option.splits)

text \<open>
  C3, as the claim states it, fails: with a model \<^verbatim>\<open>crm.tag\<close> that has a many-to-many field
  to itself, followed by a model \<^verbatim>\<open>crm.city\<close>, the instances of \<^verbatim>\<open>crm.tag\<close> get their
  attachments before any instance of \<^verbatim>\<open>crm.city\<close> is saved.
\<close>

theorem wiring_before_later_generation:
  "\<not> wiring_after_all_generation (trace (process_models env0 [tag_model, city_model] s0))"
proof
  assume a: "wiring_after_all_generation (trace (process_models env0 [tag_model, city_model] s0))"
  have nf: "\<And>n. db_fault env0 n = None" by (simp add: env0_def)
  have kt: "model_key tag_model = ''crm.tag''" by (simp add: model_key_def dotted_def tag_model_def)
  have kc: "model_key city_model = ''crm.city''" by (simp add: model_key_def dotted_def city_model_def)
  have nat: "\<not> abstract tag_model" by (simp add: tag_model_def)
  have nac: "\<not> abstract city_model" by (simp add: city_model_def)
  let ?s1 = "generate_data_for_model env0 tag_model s0"
  have k1: "ledger_keyed ?s1" using ledger_keyed_s0 by (rule ledger_keyed_generate)
  have l1: "length (ledger ?s1 ''crm.tag'') = 100"
    using generate_count [OF nf nat, of s0] kt by simp
  then have ne: "ledger ?s1 ''crm.tag'' \<noteq> []" by auto
  obtain r s2 where h: "handle_many_to_many_relations env0 tag_model ?s1 = (r, s2)"
    by (cases "handle_many_to_many_relations env0 tag_model ?s1")
  obtain w where w: "wire_step ''crm.tag'' ?s1 s2 w"
    using wiring_facts [of tag_model ?s1 env0] h kt by auto
  have "length (trace s2) = length (trace ?s1) + 100"
    using tag_wiring [OF ne, of env0] h set_relations_count [OF nf] l1 by simp
  then have "length w = 100" using w by (simp add: wire_step_def)
  then obtain ev w' where wc: "w = ev # w'" by (cases w) auto
  have "\<exists>obj \<in> set (ledger ?s1 ''crm.tag''). \<exists>f rs. ev = SetRelated obj f rs"
    using w wc by (simp add: wire_step_def)
  then obtain obj f rs where ev: "ev = SetRelated obj f rs" "obj \<in> set (ledger ?s1 ''crm.tag'')"
    by blast
  have mo: "model_of obj = ''crm.tag''" using k1 ev(2) by (simp add: ledger_keyed_def)
  let ?s3 = "case r of None \<Rightarrow> s2 | Some err \<Rightarrow> s2\<lparr>stdout := stdout s2 @ [ErrorProcessing (label tag_model) err]\<rparr>"
  have t3: "trace ?s3 = trace s2" by (cases r) simp_all
  let ?s4 = "generate_data_for_model env0 city_model ?s3"
  obtain g where g: "trace ?s4 = trace ?s3 @ g"
    "created_objects ?s4 =
       (if abstract city_model then created_objects ?s3
        else (created_objects ?s3)(model_key city_model \<mapsto> saved_of g))"
    "\<forall>ev \<in> set g. generation_of (model_key city_model) ev"
    by (rule generate_facts [of env0 city_model ?s3]) blast
  have "ledger ?s4 ''crm.city'' = saved_of g" using g(2) nac kc by (simp add: ledger_def)
  moreover have "length (ledger ?s4 ''crm.city'') = 100"
    using generate_count [OF nf nac, of ?s3] kc by simp
  ultimately have "saved_of g \<noteq> []" by auto
  then obtain c where c: "c \<in> set (saved_of g)" by (cases "saved_of g") auto
  have cm: "model_of c = ''crm.city''" using saved_generation [OF c g(3)] kc by simp
  have cg: "SaveOk c \<in> set g" using c by (rule saved_of_mem)
  obtain r5 s5 where h5: "handle_many_to_many_relations env0 city_model ?s4 = (r5, s5)"
    by (cases "handle_many_to_many_relations env0 city_model ?s4")
  obtain w5 where w5: "wire_step ''crm.city'' ?s4 s5 w5"
    using wiring_facts [of city_model ?s4 env0] h5 kc by auto
  have t5: "trace s5 = trace ?s4 @ w5" using w5 by (simp add: wire_step_def)
  have p: "trace (process_models env0 [tag_model, city_model] s0) = trace s5"
    using h h5 by (cases r; cases r5) simp_all
  have "trace s5 = (trace ?s1 @ [ev]) @ (w' @ g @ w5)"
    using t5 g(1) t3 w wc by (simp add: wire_step_def)
  then have "trace (process_models env0 [tag_model, city_model] s0) = trace ?s1 @ (ev # w' @ g @ w5)"
    using p by simp
  then have "wiring_after_all_generation (ev # w' @ g @ w5)"
    using a wiring_after_append by metis
  then have "\<not> saves_other ''crm.tag'' (w' @ g @ w5)" using ev(1) mo by simp
  moreover have "saves_other ''crm.tag'' (w' @ g @ w5)"
    using cg cm by (intro saves_other_mem [of c]) auto
  ultimately show False by contradiction
qed

end
